theory Spec2Isabelle
  imports Main "HOL-Library.Word"
begin

unbundle bit_operations_syntax

section \<open>The librpma client engine: data model\<close>

text \<open>
  A shallow embedding of \<^verbatim>\<open>engines/librpma_client.c\<close>. Every C function that the
  properties below talk about is a HOL function of the same name over an explicit state.

  Conventions.
  \<^item> \<^verbatim>\<open>unsigned int\<close>, \<^verbatim>\<open>uint32_t\<close> are \<open>32 word\<close>; \<^verbatim>\<open>uint64_t\<close>, \<^verbatim>\<open>size_t\<close> and
    \<^verbatim>\<open>unsigned long long\<close> are \<open>64 word\<close> (LP64). Unsigned arithmetic wraps.
  \<^item> The \<^verbatim>\<open>int\<close> counters of \<^verbatim>\<open>struct librpmaio_data\<close> are \<open>int\<close>. Each counter indexes
    an array, and an index outside its array is a \<open>Fault\<close>, so a counter leaves the range
    of a C \<^verbatim>\<open>int\<close> only past an array of more than \<open>2^31\<close> cells. The predicate
    \<open>c_int\<close> says that a value fits a C \<^verbatim>\<open>int\<close>; it is assumed where a cast depends on it.
  \<^item> A C array reached through a pointer is a list (its cells, the capacity being the
    length). Reading or writing a cell outside it is undefined behaviour in C and the
    result \<open>Inl Fault\<close> here.
  \<^item> An \<^verbatim>\<open>io_u\<close> is referred to by its address (a \<open>nat\<close>); the objects themselves live in
    the store \<open>io_u_mem\<close>, since the three collections hold pointers and the completion
    handler writes through them.
  \<^item> The host is taken to be x86-64: \<^verbatim>\<open>htonl\<close>/\<^verbatim>\<open>ntohl\<close> swap bytes and
    \<^verbatim>\<open>sizeof(struct librpma_info_blk)\<close> is 8208.
  \<^item> Logging (\<^verbatim>\<open>log_err\<close>, \<^verbatim>\<open>dprint\<close>), statistics (\<^verbatim>\<open>io_u_queued\<close>,
    \<^verbatim>\<open>io_u_mark_submit\<close>) and the issue time stamp do not influence control flow or the
    collections and are left out.
\<close>

type_synonym u32 = "32 word"
type_synonym u64 = "64 word"
type_synonym io_u_ptr = nat

datatype fail =
    Fault    \<comment> \<open>undefined behaviour: array index out of range, null array\<close>
  | Abort    \<comment> \<open>a failed \<^verbatim>\<open>assert\<close>\<close>
  | Blocked  \<comment> \<open>a blocking wait for an event that never arrives\<close>

definition c_int :: "int \<Rightarrow> bool" where
  "c_int n \<longleftrightarrow> - 2147483648 \<le> n \<and> n < 2147483648"

definition valid_idx :: "'a list \<Rightarrow> int \<Rightarrow> bool" where
  "valid_idx a i \<longleftrightarrow> 0 \<le> i \<and> i < int (length a)"

subsection \<open>Constants and enumerations\<close>

definition FIO_RDMA_MAX_IO_DEPTH :: u64 where
  "FIO_RDMA_MAX_IO_DEPTH = 512"

definition KILOBYTE :: u64 where
  "KILOBYTE = 1024"

text \<open>\<^verbatim>\<open>enum librpma_io_mode\<close>. The field \<^verbatim>\<open>librpma_protocol\<close> also receives raw values
  from the wire (\<^verbatim>\<open>server_recv\<close>), so it is kept as the underlying integer.\<close>

definition FIO_RDMA_UNKNOWN :: u32 where "FIO_RDMA_UNKNOWN = 0"
definition FIO_RDMA_MEM_WRITE :: u32 where "FIO_RDMA_MEM_WRITE = 1"
definition FIO_RDMA_MEM_READ :: u32 where "FIO_RDMA_MEM_READ = 2"
definition FIO_RDMA_CHA_SEND :: u32 where "FIO_RDMA_CHA_SEND = 3"
definition FIO_RDMA_CHA_RECV :: u32 where "FIO_RDMA_CHA_RECV = 4"

datatype fio_ddir = DDIR_READ | DDIR_WRITE | DDIR_TRIM | DDIR_SYNC | DDIR_DATASYNC
  | DDIR_SYNC_FILE_RANGE | DDIR_WAIT | DDIR_LAST | DDIR_INVAL

datatype fio_q_status = FIO_Q_COMPLETED | FIO_Q_QUEUED | FIO_Q_BUSY

text \<open>The completion opcodes the handler distinguishes; every other value of
  \<^verbatim>\<open>enum ibv_wc_opcode\<close> takes the \<^verbatim>\<open>default\<close> branch.\<close>

datatype ibv_wc_opcode = IBV_WC_SEND | IBV_WC_RDMA_WRITE | IBV_WC_RDMA_READ | IBV_WC_RECV
  | IBV_WC_OTHER nat

datatype rdma_cm_event_type = RDMA_CM_EVENT_CONNECT_REQUEST | RDMA_CM_EVENT_ESTABLISHED
  | RDMA_CM_EVENT_OTHER nat

subsection \<open>Structures\<close>

text \<open>\<^verbatim>\<open>struct remote_u\<close> (fields \<^verbatim>\<open>buf\<close>, \<^verbatim>\<open>rkey\<close>, \<^verbatim>\<open>size\<close>).\<close>

record remote_u =
  rmt_buf :: u64
  rmt_rkey :: u32
  rmt_size :: u32

text \<open>\<^verbatim>\<open>struct librpma_info_blk\<close> (fields \<^verbatim>\<open>mode\<close>, \<^verbatim>\<open>nr\<close>, \<^verbatim>\<open>max_bs\<close>, \<^verbatim>\<open>rmt_us\<close>); the last
  field is an array of \<^verbatim>\<open>FIO_RDMA_MAX_IO_DEPTH\<close> entries.\<close>

record librpma_info_blk =
  blk_mode :: u32
  blk_nr :: u32
  blk_max_bs :: u32
  blk_rmt_us :: "remote_u list"

definition sizeof_info_blk :: u64 where
  "sizeof_info_blk = 8208"

text \<open>An \<^verbatim>\<open>io_u\<close> with its \<^verbatim>\<open>engine_data\<close> (\<^verbatim>\<open>struct librpma_io_u_data\<close>: \<^verbatim>\<open>wr_id\<close>,
  \<^verbatim>\<open>sq_wr.wr_id\<close>, \<^verbatim>\<open>rq_wr.wr_id\<close>). The declaration of \<^verbatim>\<open>struct io_u\<close> is in fio's headers;
  \<^verbatim>\<open>buflen\<close> and \<^verbatim>\<open>resid\<close> are \<^verbatim>\<open>unsigned long long\<close> there and \<^verbatim>\<open>error\<close> is
  \<^verbatim>\<open>unsigned int\<close>.\<close>

record io_u =
  ddir :: fio_ddir
  buflen :: u64
  resid :: u64
  error :: u32
  wr_id :: u64
  sq_wr_id :: u64
  rq_wr_id :: u64

text \<open>\<^verbatim>\<open>struct ibv_wc\<close>: status (0 is \<^verbatim>\<open>IBV_WC_SUCCESS\<close>), opcode, work request id and byte
  length.\<close>

record ibv_wc =
  wc_status :: u32
  wc_opcode :: ibv_wc_opcode
  wc_wr_id :: u64
  wc_byte_len :: u32

text \<open>What \<^verbatim>\<open>ibv_poll_cq(cq, 1, &wc)\<close> can deliver: one completion (return value 1), or
  a return value other than 1 without a completion. An empty queue returns 0.\<close>

datatype cq_entry = CQE ibv_wc | CQ_RET int

text \<open>The job options the engine reads from \<^verbatim>\<open>struct thread_data\<close>. Their declarations
  are in fio's headers: \<^verbatim>\<open>td->o.iodepth\<close> is \<^verbatim>\<open>unsigned int\<close>, and the entries of
  \<^verbatim>\<open>td->o.max_bs\<close> are \<^verbatim>\<open>unsigned long long\<close>. The macros \<^verbatim>\<open>td_read\<close>, \<^verbatim>\<open>td_write\<close>,
  \<^verbatim>\<open>td_trim\<close> and the function \<^verbatim>\<open>fio_fill_issue_time\<close> are declared there as well; the
  record holds the value each of them has for the job.\<close>

record thread_data =
  iodepth :: u32
  max_bs_read :: u64
  max_bs_write :: u64
  td_read :: bool
  td_write :: bool
  td_trim :: bool
  fill_issue_time :: bool

text \<open>The calls that leave the process, in the order they are made: \<^verbatim>\<open>rpma_write\<close>
  (destination offset, source offset, length), \<^verbatim>\<open>rpma_flush\<close> (destination offset,
  length) and \<^verbatim>\<open>ibv_post_send\<close> of the control work request, with the contents the
  control send buffer has at that moment.\<close>

datatype verb =
    RPMA_WRITE u64 u64 u64
  | RPMA_FLUSH u64 u64
  | IBV_POST_SEND librpma_info_blk

text \<open>One wake-up of the completion channel: the results of \<^verbatim>\<open>ibv_get_cq_event\<close> (its
  return value, and whether the reported queue is \<^verbatim>\<open>rd->cq\<close>) and of
  \<^verbatim>\<open>ibv_req_notify_cq\<close>, the completions that have reached the queue by then, and the
  control message the adapter has written into \<^verbatim>\<open>rd->recv_buf\<close> by then, if any.\<close>

record cq_round =
  get_cq_event_ret :: int
  ev_cq_is_cq :: bool
  req_notify_ret :: int
  arrived :: "cq_entry list"
  received :: "librpma_info_blk option"

text \<open>\<^verbatim>\<open>struct librpmaio_data\<close>: the fields the modelled functions read or write.
  \<^verbatim>\<open>io_us_queued\<close> is \<open>None\<close> for a null pointer, which \<^verbatim>\<open>fio_librpmaio_commit\<close> tests.\<close>

record librpmaio_data =
  dst_offset :: u64
  is_client :: int
  librpma_protocol :: u32
  recv_buf :: librpma_info_blk
  send_buf :: librpma_info_blk
  child_cm_id :: nat
  cq_event_num :: int
  rmt_us :: "remote_u list"
  rmt_nr :: int
  io_us_queued :: "io_u_ptr list option"
  io_u_queued_nr :: int
  io_us_flight :: "io_u_ptr list"
  io_u_flight_nr :: int
  io_us_completed :: "io_u_ptr list"
  io_u_completed_nr :: int

text \<open>The engine data together with what surrounds it: the store of \<^verbatim>\<open>io_u\<close> objects, the
  completion queue, the calls made so far, and the answers the outside world will give
  to the calls still to come.\<close>

record world = librpmaio_data +
  io_u_mem :: "io_u_ptr \<Rightarrow> io_u"
  cq :: "cq_entry list"
  posted :: "verb list"
  rounds :: "cq_round list"
  cm_events :: "(int \<times> rdma_cm_event_type \<times> nat) list"
  rdma_connect_ret :: int
  rdma_accept_ret :: int
  post_send_ret :: int

subsection \<open>The three collections\<close>

text \<open>A collection is the prefix of its array that the counter covers.\<close>

definition queued :: "world \<Rightarrow> io_u_ptr list" where
  "queued w = (case io_us_queued w of None \<Rightarrow> [] | Some q \<Rightarrow> take (nat (io_u_queued_nr w)) q)"

definition in_flight :: "world \<Rightarrow> io_u_ptr list" where
  "in_flight w = take (nat (io_u_flight_nr w)) (io_us_flight w)"

definition completed :: "world \<Rightarrow> io_u_ptr list" where
  "completed w = take (nat (io_u_completed_nr w)) (io_us_completed w)"

section \<open>Byte order\<close>

definition ntohl :: "u32 \<Rightarrow> u32" where
  "ntohl x = push_bit 24 (x AND 255) OR push_bit 8 (x AND 65280)
             OR (drop_bit 8 x AND 65280) OR drop_bit 24 x"

definition htonl :: "u32 \<Rightarrow> u32" where
  "htonl x = ntohl x"

definition be64_to_cpu :: "u64 \<Rightarrow> u64" where
  "be64_to_cpu x = push_bit 32 (ucast (ntohl (ucast x)))
                   OR ucast (ntohl (ucast (drop_bit 32 x)))"

section \<open>Submission\<close>

text \<open>\<^verbatim>\<open>fio_ro_check\<close> is an assertion of fio's headers: a write needs a job that writes,
  a trim a job that trims.\<close>

definition fio_ro_check :: "thread_data \<Rightarrow> io_u \<Rightarrow> bool" where
  "fio_ro_check td u \<longleftrightarrow>
     \<not> (ddir u = DDIR_WRITE \<and> \<not> td_write td) \<and> \<not> (ddir u = DDIR_TRIM \<and> \<not> td_trim td)"

text \<open>\<^verbatim>\<open>fio_librpmaio_queue\<close>. The comparison is made at type \<^verbatim>\<open>int\<close>, after the cast
  \<^verbatim>\<open>(int)td->o.iodepth\<close>. The \<^verbatim>\<open>switch\<close> has the single case \<^verbatim>\<open>DDIR_WRITE\<close>.\<close>

definition fio_librpmaio_queue ::
    "thread_data \<Rightarrow> io_u_ptr \<Rightarrow> world \<Rightarrow> fail + (fio_q_status \<times> world)" where
  "fio_librpmaio_queue td io_u w =
     (if \<not> fio_ro_check td (io_u_mem w io_u) then Inl Abort
      else if io_u_queued_nr w = sint (iodepth td) then Inr (FIO_Q_BUSY, w)
      else case io_us_queued w of
        None \<Rightarrow> Inl Fault
      | Some q \<Rightarrow>
          if \<not> valid_idx q (io_u_queued_nr w) then Inl Fault
          else
            let w1 = w\<lparr>io_us_queued := Some (q[nat (io_u_queued_nr w) := io_u]),
                       io_u_queued_nr := io_u_queued_nr w + 1\<rparr>;
                w2 = (case ddir (io_u_mem w1 io_u) of
                        DDIR_WRITE \<Rightarrow>
                          w1\<lparr>posted := posted w1 @ [RPMA_WRITE (dst_offset w1) 0 KILOBYTE]\<rparr>
                      | _ \<Rightarrow> w1)
            in Inr (FIO_Q_QUEUED, w2))"

text \<open>\<^verbatim>\<open>fio_librpmaio_queued(td, io_us, nr)\<close>, where \<^verbatim>\<open>io_us\<close> points \<open>off\<close> cells into the
  queued array. The loop runs \<open>nr\<close> times; \<open>i\<close> is its counter.\<close>

fun fio_librpmaio_queued_loop :: "nat \<Rightarrow> nat \<Rightarrow> nat \<Rightarrow> world \<Rightarrow> fail + world" where
  "fio_librpmaio_queued_loop off i 0 w = Inr w"
| "fio_librpmaio_queued_loop off i (Suc k) w =
     (case io_us_queued w of
        None \<Rightarrow> Inl Fault
      | Some q \<Rightarrow>
          if \<not> valid_idx q (int (off + i)) then Inl Fault
          else if \<not> valid_idx (io_us_flight w) (io_u_flight_nr w) then Inl Fault
          else fio_librpmaio_queued_loop off (Suc i) k
                 (w\<lparr>io_us_flight := (io_us_flight w)[nat (io_u_flight_nr w) := q ! (off + i)],
                    io_u_flight_nr := io_u_flight_nr w + 1\<rparr>))"

definition fio_librpmaio_queued :: "thread_data \<Rightarrow> nat \<Rightarrow> nat \<Rightarrow> world \<Rightarrow> fail + world" where
  "fio_librpmaio_queued td off nr w =
     (if \<not> fill_issue_time td then Inr w else fio_librpmaio_queued_loop off 0 nr w)"

text \<open>The \<^verbatim>\<open>do ... while\<close> loop of \<^verbatim>\<open>fio_librpmaio_commit\<close>. \<open>cap\<close> is the capacity of the
  queued array and \<open>off\<close> the distance of the local pointer \<^verbatim>\<open>io_us\<close> from its start;
  \<^verbatim>\<open>io_us += ret\<close> past the end of the array is undefined.\<close>

function commit_loop :: "thread_data \<Rightarrow> nat \<Rightarrow> nat \<Rightarrow> world \<Rightarrow> fail + (int \<times> world)" where
  "commit_loop td cap off w =
     (if is_client w \<noteq> 0 then
        (case fio_librpmaio_queued td off 1
                (w\<lparr>posted := posted w @ [RPMA_FLUSH (dst_offset w) KILOBYTE]\<rparr>) of
           Inl e \<Rightarrow> Inl e
         | Inr w1 \<Rightarrow>
             if cap < off + 1 then Inl Fault
             else
               let w2 = w1\<lparr>io_u_queued_nr := io_u_queued_nr w1 - 1\<rparr>
               in if io_u_queued_nr w2 \<noteq> 0 then commit_loop td cap (off + 1) w2
                  else Inr (0, w2))
      else Inr (0, w))"
  by pat_completeness auto
termination
  by (relation "measure (\<lambda>(td, cap, off, w). cap + 1 - off)") auto

declare commit_loop.simps [simp del]

definition fio_librpmaio_commit :: "thread_data \<Rightarrow> world \<Rightarrow> fail + (int \<times> world)" where
  "fio_librpmaio_commit td w =
     (case io_us_queued w of
        None \<Rightarrow> Inr (0, w)
      | Some q \<Rightarrow> commit_loop td (length q) 0 w)"

section \<open>Retrieval\<close>

text \<open>The shifting loop of \<^verbatim>\<open>fio_librpmaio_event\<close>.\<close>

function event_loop :: "int \<Rightarrow> world \<Rightarrow> fail + world" where
  "event_loop i w =
     (if i < io_u_completed_nr w - 1 then
        (if \<not> valid_idx (io_us_completed w) i \<or> \<not> valid_idx (io_us_completed w) (i + 1)
         then Inl Fault
         else event_loop (i + 1)
                (w\<lparr>io_us_completed :=
                     (io_us_completed w)[nat i := io_us_completed w ! nat (i + 1)]\<rparr>))
      else Inr w)"
  by pat_completeness auto
termination
  by (relation "measure (\<lambda>(i, w). nat (io_u_completed_nr w - 1 - i))") auto

declare event_loop.simps [simp del]

definition fio_librpmaio_event :: "world \<Rightarrow> fail + (io_u_ptr \<times> world)" where
  "fio_librpmaio_event w =
     (if \<not> valid_idx (io_us_completed w) 0 then Inl Fault
      else case event_loop 0 w of
        Inl e \<Rightarrow> Inl e
      | Inr w1 \<Rightarrow>
          Inr (io_us_completed w ! 0, w1\<lparr>io_u_completed_nr := io_u_completed_nr w1 - 1\<rparr>))"

section \<open>Completion handling\<close>

text \<open>The copy loop of \<^verbatim>\<open>client_recv\<close>.\<close>

function client_recv_loop :: "int \<Rightarrow> world \<Rightarrow> fail + world" where
  "client_recv_loop i w =
     (if i < rmt_nr w then
        (if \<not> valid_idx (rmt_us w) i \<or> \<not> valid_idx (blk_rmt_us (recv_buf w)) i
         then Inl Fault
         else
           let r = blk_rmt_us (recv_buf w) ! nat i
           in client_recv_loop (i + 1)
                (w\<lparr>rmt_us := (rmt_us w)[nat i :=
                     \<lparr>rmt_buf = be64_to_cpu (rmt_buf r), rmt_rkey = ntohl (rmt_rkey r),
                      rmt_size = ntohl (rmt_size r)\<rparr>]\<rparr>))
      else Inr w)"
  by pat_completeness auto
termination
  by (relation "measure (\<lambda>(i, w). nat (rmt_nr w - i))") auto

declare client_recv_loop.simps [simp del]

text \<open>\<^verbatim>\<open>client_recv\<close> and \<^verbatim>\<open>server_recv\<close>. The maximum of the two block sizes is taken at
  their own width and then stored in the local \<^verbatim>\<open>unsigned int max_bs\<close>, which keeps its low
  32 bits; the comparison with the received block size is made on that value.\<close>

definition client_recv :: "thread_data \<Rightarrow> ibv_wc \<Rightarrow> world \<Rightarrow> fail + (int \<times> world)" where
  "client_recv td wc w =
     (if ucast (wc_byte_len wc) \<noteq> sizeof_info_blk then Inr (1, w)
      else
        let max_bs = (ucast (max (max_bs_read td) (max_bs_write td)) :: u32)
        in if ntohl (blk_max_bs (recv_buf w)) < max_bs then Inr (1, w)
           else if librpma_protocol w = FIO_RDMA_MEM_WRITE
                   \<or> librpma_protocol w = FIO_RDMA_MEM_READ
           then (case client_recv_loop 0 (w\<lparr>rmt_nr := sint (ntohl (blk_nr (recv_buf w)))\<rparr>) of
                   Inl e \<Rightarrow> Inl e
                 | Inr w1 \<Rightarrow> Inr (0, w1))
           else Inr (0, w))"

definition server_recv :: "thread_data \<Rightarrow> ibv_wc \<Rightarrow> world \<Rightarrow> fail + (int \<times> world)" where
  "server_recv td wc w =
     (if wc_wr_id wc = FIO_RDMA_MAX_IO_DEPTH then
        let p = ntohl (blk_mode (recv_buf w));
            w1 = w\<lparr>librpma_protocol := (if p = FIO_RDMA_CHA_SEND then FIO_RDMA_CHA_RECV else p)\<rparr>;
            max_bs = (ucast (max (max_bs_read td) (max_bs_write td)) :: u32)
        in if max_bs < ntohl (blk_max_bs (recv_buf w1)) then Inr (1, w1) else Inr (0, w1)
      else Inr (0, w))"

text \<open>The search loops of \<^verbatim>\<open>cq_event_handler\<close>: \<open>sel\<close> is \<^verbatim>\<open>rq_wr.wr_id\<close> for a receive and
  \<^verbatim>\<open>sq_wr.wr_id\<close> otherwise. The result is the value of \<^verbatim>\<open>i\<close> when the loop is left, by
  \<^verbatim>\<open>break\<close> (then \<open>i < io_u_flight_nr\<close>) or by its condition.\<close>

function find_flight :: "(io_u \<Rightarrow> u64) \<Rightarrow> u64 \<Rightarrow> int \<Rightarrow> world \<Rightarrow> fail + int" where
  "find_flight sel wid i w =
     (if i < io_u_flight_nr w then
        (if \<not> valid_idx (io_us_flight w) i then Inl Fault
         else if wid = sel (io_u_mem w (io_us_flight w ! nat i)) then Inr i
         else find_flight sel wid (i + 1) w)
      else Inr i)"
  by pat_completeness auto
termination
  by (relation "measure (\<lambda>(sel, wid, i, w). nat (io_u_flight_nr w - i))") auto

declare find_flight.simps [simp del]

text \<open>The body executed at a match: for a receive the outcome is written first
  (\<open>set_outcome\<close>); then the request is appended to the completed array.\<close>

definition to_completed :: "bool \<Rightarrow> ibv_wc \<Rightarrow> int \<Rightarrow> world \<Rightarrow> fail + world" where
  "to_completed set_outcome wc i w =
     (let p = io_us_flight w ! nat i;
          w1 = (if set_outcome
                then w\<lparr>io_u_mem := (io_u_mem w)(p :=
                          (io_u_mem w p)\<lparr>resid := buflen (io_u_mem w p) - ucast (wc_byte_len wc),
                                         error := 0\<rparr>)\<rparr>
                else w)
      in if \<not> valid_idx (io_us_completed w1) (io_u_completed_nr w1) then Inl Fault
         else Inr (w1\<lparr>io_us_completed :=
                        (io_us_completed w1)[nat (io_u_completed_nr w1) := p],
                     io_u_completed_nr := io_u_completed_nr w1 + 1\<rparr>))"

text \<open>The code after the search loop: "put the last one into middle of the list".\<close>

definition drop_flight :: "int \<Rightarrow> world \<Rightarrow> fail + world" where
  "drop_flight i w =
     (if i = io_u_flight_nr w then Inr w
      else if \<not> valid_idx (io_us_flight w) i
              \<or> \<not> valid_idx (io_us_flight w) (io_u_flight_nr w - 1) then Inl Fault
      else Inr (w\<lparr>io_us_flight :=
                    (io_us_flight w)[nat i := io_us_flight w ! nat (io_u_flight_nr w - 1)],
                  io_u_flight_nr := io_u_flight_nr w - 1\<rparr>))"

definition match_flight :: "bool \<Rightarrow> ibv_wc \<Rightarrow> world \<Rightarrow> fail + world" where
  "match_flight is_recv wc w =
     (case find_flight (if is_recv then rq_wr_id else sq_wr_id) (wc_wr_id wc) 0 w of
        Inl e \<Rightarrow> Inl e
      | Inr i \<Rightarrow>
          (case (if i < io_u_flight_nr w then to_completed is_recv wc i w else Inr w) of
             Inl e \<Rightarrow> Inl e
           | Inr w1 \<Rightarrow> drop_flight i w1))"

text \<open>One turn of the \<^verbatim>\<open>while\<close> loop of \<^verbatim>\<open>cq_event_handler\<close> for a polled completion:
  either the function returns (\<open>Ret\<close>) or the loop goes on (\<open>Next\<close>).\<close>

datatype turn = Ret int world | Next world

definition handle_wc :: "thread_data \<Rightarrow> ibv_wc \<Rightarrow> world \<Rightarrow> fail + turn" where
  "handle_wc td wc w =
     (if wc_status wc \<noteq> 0 then Inr (Ret (- 1) w)
      else case wc_opcode wc of
        IBV_WC_RECV \<Rightarrow>
          (case (if is_client w = 1 then client_recv td wc w else server_recv td wc w) of
             Inl e \<Rightarrow> Inl e
           | Inr (ret, w1) \<Rightarrow>
               if ret \<noteq> 0 then Inr (Ret (- 1) w1)
               else if wc_wr_id wc = FIO_RDMA_MAX_IO_DEPTH then Inr (Next w1)
               else (case match_flight True wc w1 of
                       Inl e \<Rightarrow> Inl e
                     | Inr w2 \<Rightarrow> Inr (Next w2)))
      | IBV_WC_OTHER k \<Rightarrow> Inr (Ret (- 1) w)
      | _ \<Rightarrow>
          if wc_wr_id wc = FIO_RDMA_MAX_IO_DEPTH then Inr (Next w)
          else (case match_flight False wc w of
                  Inl e \<Rightarrow> Inl e
                | Inr w2 \<Rightarrow> Inr (Next w2)))"

text \<open>The \<^verbatim>\<open>while\<close> loop over the completion queue; \<open>n\<close> is \<^verbatim>\<open>compevnum\<close>. The result
  carries the entries left in the queue.\<close>

fun handler_loop ::
    "thread_data \<Rightarrow> int \<Rightarrow> cq_entry list \<Rightarrow> world \<Rightarrow> fail + (int \<times> cq_entry list \<times> world)" where
  "handler_loop td n [] w = Inr (n, [], w)"
| "handler_loop td n (CQ_RET r # es) w = Inr (if r \<noteq> 0 then 1 else n, es, w)"
| "handler_loop td n (CQE wc # es) w =
     (case handle_wc td wc w of
        Inl e \<Rightarrow> Inl e
      | Inr (Ret r w1) \<Rightarrow> Inr (r, es, w1)
      | Inr (Next w1) \<Rightarrow>
          handler_loop td (n + 1) es (w1\<lparr>cq_event_num := cq_event_num w1 + 1\<rparr>))"

definition cq_event_handler :: "thread_data \<Rightarrow> world \<Rightarrow> fail + (int \<times> world)" where
  "cq_event_handler td w =
     (case handler_loop td 0 (cq w) w of
        Inl e \<Rightarrow> Inl e
      | Inr (r, es, w1) \<Rightarrow> Inr (r, w1\<lparr>cq := es\<rparr>))"

section \<open>Waiting for completions\<close>

text \<open>The part of \<^verbatim>\<open>librpma_poll_wait\<close> from the label \<^verbatim>\<open>again\<close>: each turn consumes one
  wake-up of the completion channel. The \<^verbatim>\<open>opcode\<close> argument is passed on to
  \<^verbatim>\<open>cq_event_handler\<close>, which does not read it.\<close>

fun poll_wait_again :: "thread_data \<Rightarrow> cq_round list \<Rightarrow> world \<Rightarrow> fail + (int \<times> world)" where
  "poll_wait_again td [] w = Inl Blocked"
| "poll_wait_again td (r # rs) w =
     (let w1 = w\<lparr>recv_buf := (case received r of None \<Rightarrow> recv_buf w | Some b \<Rightarrow> b),
                cq := cq w @ arrived r, rounds := rs\<rparr>
      in if get_cq_event_ret r \<noteq> 0 then Inr (- 1, w1)
         else if \<not> ev_cq_is_cq r then Inr (- 1, w1)
         else if req_notify_ret r \<noteq> 0 then Inr (- 1, w1)
         else case cq_event_handler td w1 of
           Inl e \<Rightarrow> Inl e
         | Inr (ret, w2) \<Rightarrow>
             if ret = 0 then poll_wait_again td rs w2
             else Inr (ret, w2\<lparr>cq_event_num := cq_event_num w2 - 1\<rparr>))"

definition librpma_poll_wait :: "thread_data \<Rightarrow> world \<Rightarrow> fail + (int \<times> world)" where
  "librpma_poll_wait td w =
     (if cq_event_num w > 0 then Inr (0, w\<lparr>cq_event_num := cq_event_num w - 1\<rparr>)
      else poll_wait_again td (rounds w) w)"

text \<open>\<^verbatim>\<open>fio_librpmaio_getevents\<close> from the label \<^verbatim>\<open>again\<close>; \<open>r\<close> is the running sum. The
  comparison \<^verbatim>\<open>r < min\<close> is made at type \<^verbatim>\<open>unsigned int\<close>. The \<^verbatim>\<open>switch\<close> at the start of the
  function only chooses the opcode handed to \<^verbatim>\<open>cq_event_handler\<close>, which does not read it;
  \<^verbatim>\<open>max\<close> and the timeout are not read either.\<close>

fun getevents_again ::
    "thread_data \<Rightarrow> u32 \<Rightarrow> int \<Rightarrow> cq_round list \<Rightarrow> world \<Rightarrow> fail + (int \<times> world)" where
  "getevents_again td mn r [] w = Inl Blocked"
| "getevents_again td mn r (x # rs) w =
     (let w1 = w\<lparr>recv_buf := (case received x of None \<Rightarrow> recv_buf w | Some b \<Rightarrow> b),
                cq := cq w @ arrived x, rounds := rs\<rparr>
      in if get_cq_event_ret x \<noteq> 0 then Inr (- 1, w1)
         else if \<not> ev_cq_is_cq x then Inr (- 1, w1)
         else if req_notify_ret x \<noteq> 0 then Inr (- 1, w1)
         else case cq_event_handler td w1 of
           Inl e \<Rightarrow> Inl e
         | Inr (ret, w2) \<Rightarrow>
             if ret < 1 then getevents_again td mn r rs w2
             else if (word_of_int (r + ret) :: u32) < mn
             then getevents_again td mn (r + ret) rs w2
             else Inr (r + ret, w2\<lparr>cq_event_num := cq_event_num w2 - (r + ret)\<rparr>))"

definition fio_librpmaio_getevents ::
    "thread_data \<Rightarrow> u32 \<Rightarrow> u32 \<Rightarrow> world \<Rightarrow> fail + (int \<times> world)" where
  "fio_librpmaio_getevents td mn mx w =
     (if cq_event_num w > 0 then Inr (0, w\<lparr>cq_event_num := cq_event_num w - 1\<rparr>)
      else getevents_again td mn 0 (rounds w) w)"

section \<open>Opening the connection\<close>

definition get_next_channel_event ::
    "rdma_cm_event_type \<Rightarrow> world \<Rightarrow> fail + (int \<times> world)" where
  "get_next_channel_event wait_event w =
     (case cm_events w of
        [] \<Rightarrow> Inl Blocked
      | (ret, ev, cmid) # es \<Rightarrow>
          let w1 = w\<lparr>cm_events := es\<rparr>
          in if ret \<noteq> 0 then Inr (1, w1)
             else if ev \<noteq> wait_event then Inr (1, w1)
             else Inr (0, case ev of
                            RDMA_CM_EVENT_CONNECT_REQUEST \<Rightarrow> w1\<lparr>child_cm_id := cmid\<rparr>
                          | _ \<Rightarrow> w1))"

definition fio_librpmaio_connect :: "thread_data \<Rightarrow> world \<Rightarrow> fail + (int \<times> world)" where
  "fio_librpmaio_connect td w =
     (if rdma_connect_ret w \<noteq> 0 then Inr (1, w)
      else
        (case get_next_channel_event RDMA_CM_EVENT_ESTABLISHED w of
           Inl e \<Rightarrow> Inl e
         | Inr (r, w1) \<Rightarrow>
             if r \<noteq> 0 then Inr (1, w1)
             else
               let w2 = w1\<lparr>send_buf := (send_buf w1)\<lparr>blk_mode := htonl (librpma_protocol w1),
                                                      blk_nr := htonl (iodepth td)\<rparr>\<rparr>
               in if post_send_ret w2 \<noteq> 0 then Inr (1, w2)
                  else
                    (case librpma_poll_wait td
                            (w2\<lparr>posted := posted w2 @ [IBV_POST_SEND (send_buf w2)]\<rparr>) of
                       Inl e \<Rightarrow> Inl e
                     | Inr (r1, w4) \<Rightarrow>
                         if r1 < 0 then Inr (1, w4)
                         else
                           (case librpma_poll_wait td w4 of
                              Inl e \<Rightarrow> Inl e
                            | Inr (r2, w5) \<Rightarrow>
                                if r2 < 0 then Inr (1, w5) else Inr (0, w5)))))"

definition fio_librpmaio_accept :: "thread_data \<Rightarrow> world \<Rightarrow> fail + (int \<times> world)" where
  "fio_librpmaio_accept td w =
     (if rdma_accept_ret w \<noteq> 0 then Inr (1, w)
      else
        (case get_next_channel_event RDMA_CM_EVENT_ESTABLISHED w of
           Inl e \<Rightarrow> Inl e
         | Inr (r, w1) \<Rightarrow>
             if r \<noteq> 0 then Inr (1, w1)
             else
               (case librpma_poll_wait td w1 of
                  Inl e \<Rightarrow> Inl e
                | Inr (r1, w2) \<Rightarrow>
                    let ret = (if r1 < 0 then 1 else 0)
                    in if post_send_ret w2 \<noteq> 0 then Inr (1, w2)
                       else
                         (case librpma_poll_wait td
                                 (w2\<lparr>posted := posted w2 @ [IBV_POST_SEND (send_buf w2)]\<rparr>) of
                            Inl e \<Rightarrow> Inl e
                          | Inr (r2, w3) \<Rightarrow>
                              if r2 < 0 then Inr (1, w3) else Inr (ret, w3)))))"

definition fio_librpmaio_open_file :: "thread_data \<Rightarrow> world \<Rightarrow> fail + (int \<times> world)" where
  "fio_librpmaio_open_file td w =
     (if td_read td then fio_librpmaio_accept td w else fio_librpmaio_connect td w)"

section \<open>Example states\<close>

text \<open>A write job of depth 4 with block size 4096, and an engine whose arrays have four
  cells each, all counters 0. The request at address \<open>p\<close> is a write of 4096 bytes whose
  work request ids are all \<open>p\<close>.\<close>

definition td0 :: thread_data where
  "td0 = \<lparr>iodepth = 4, max_bs_read = 4096, max_bs_write = 4096, td_read = False,
          td_write = True, td_trim = False, fill_issue_time = True\<rparr>"

definition io_u0 :: "io_u_ptr \<Rightarrow> io_u" where
  "io_u0 p = \<lparr>ddir = DDIR_WRITE, buflen = 4096, resid = 0, error = 0, wr_id = of_nat p,
             sq_wr_id = of_nat p, rq_wr_id = of_nat p\<rparr>"

definition blk0 :: librpma_info_blk where
  "blk0 = \<lparr>blk_mode = 0, blk_nr = 0, blk_max_bs = 0,
           blk_rmt_us = replicate 512 \<lparr>rmt_buf = 0, rmt_rkey = 0, rmt_size = 0\<rparr>\<rparr>"

definition world0 :: world where
  "world0 = \<lparr>dst_offset = 0, is_client = 1, librpma_protocol = FIO_RDMA_MEM_WRITE,
             recv_buf = blk0, send_buf = blk0, child_cm_id = 0, cq_event_num = 0,
             rmt_us = [\<lparr>rmt_buf = 0, rmt_rkey = 0, rmt_size = 0\<rparr>,
                       \<lparr>rmt_buf = 0, rmt_rkey = 0, rmt_size = 0\<rparr>,
                       \<lparr>rmt_buf = 0, rmt_rkey = 0, rmt_size = 0\<rparr>,
                       \<lparr>rmt_buf = 0, rmt_rkey = 0, rmt_size = 0\<rparr>], rmt_nr = 0,
             io_us_queued = Some [0, 0, 0, 0], io_u_queued_nr = 0,
             io_us_flight = [0, 0, 0, 0], io_u_flight_nr = 0,
             io_us_completed = [0, 0, 0, 0], io_u_completed_nr = 0,
             io_u_mem = io_u0, cq = [], posted = [], rounds = [], cm_events = [],
             rdma_connect_ret = 0, rdma_accept_ret = 0, post_send_ret = 0\<rparr>"

text \<open>A complete handshake for that job: the connection is established, the send of
  the request completes, and then the server's confirmation arrives. It announces remote
  write, a maximum block size of 4096 and one region (address \<open>0x1000\<close>, key 7, size
  1048576), all in network byte order.\<close>

definition handshake_reply :: librpma_info_blk where
  "handshake_reply = blk0\<lparr>blk_mode := htonl 1, blk_nr := htonl 1, blk_max_bs := htonl 4096,
     blk_rmt_us := (blk_rmt_us blk0)[0 :=
        \<lparr>rmt_buf = 4503599627370496, rmt_rkey = htonl 7, rmt_size = htonl 1048576\<rparr>]\<rparr>"

definition handshake_world :: world where
  "handshake_world = world0\<lparr>
     cm_events := [(0, RDMA_CM_EVENT_ESTABLISHED, 0)],
     rounds := [\<lparr>get_cq_event_ret = 0, ev_cq_is_cq = True, req_notify_ret = 0,
                  arrived = [CQE \<lparr>wc_status = 0, wc_opcode = IBV_WC_SEND, wc_wr_id = 512,
                                  wc_byte_len = 0\<rparr>],
                  received = None\<rparr>,
                \<lparr>get_cq_event_ret = 0, ev_cq_is_cq = True, req_notify_ret = 0,
                  arrived = [CQE \<lparr>wc_status = 0, wc_opcode = IBV_WC_RECV, wc_wr_id = 512,
                                  wc_byte_len = 8208\<rparr>],
                  received = Some handshake_reply\<rparr>]\<rparr>"


text \<open>Two requests, 7 and 8, in flight.\<close>

definition flight_world :: world where
  "flight_world = world0\<lparr>io_us_flight := [7, 8, 0, 0], io_u_flight_nr := 2\<rparr>"

text \<open>The state a turn of the handler loop ends in.\<close>

fun world_of :: "turn \<Rightarrow> world" where
  "world_of (Ret r w) = w"
| "world_of (Next w) = w"

section \<open>Auxiliary facts\<close>

lemma sint_nonneg_uint: "0 \<le> sint (x::32 word) \<Longrightarrow> sint x = uint x"
proof -
  assume a: "0 \<le> sint x"
  have "sint x < 2 ^ 31"
    using sint_lt[of x] by simp
  then have "sint x < 2 ^ 32" by simp
  then have "take_bit 32 (sint x) = sint x"
    using a by (simp add: take_bit_int_eq_self)
  then show ?thesis
    using uint_sint[of x] by simp
qed

lemma sint_small_uint: "uint (x::32 word) < 2147483648 \<Longrightarrow> sint x = uint x"
proof -
  assume a: "uint x < 2147483648"
  have "- (2 ^ 31) \<le> uint x"
    by (rule order_trans[of _ 0]) simp_all
  moreover have "uint x < 2 ^ 31"
    using a by simp
  ultimately have "signed_take_bit 31 (uint x) = uint x"
    by (rule signed_take_bit_int_eq_self)
  then show ?thesis
    by (simp add: sint_uint)
qed


lemma queued_cong:
  "io_us_queued w' = io_us_queued w \<Longrightarrow> io_u_queued_nr w' = io_u_queued_nr w \<Longrightarrow>
   queued w' = queued w"
  by (simp add: queued_def split: option.split)

lemma in_flight_cong:
  "io_us_flight w' = io_us_flight w \<Longrightarrow> io_u_flight_nr w' = io_u_flight_nr w \<Longrightarrow>
   in_flight w' = in_flight w"
  by (simp add: in_flight_def)

lemma completed_cong:
  "io_us_completed w' = io_us_completed w \<Longrightarrow> io_u_completed_nr w' = io_u_completed_nr w \<Longrightarrow>
   completed w' = completed w"
  by (simp add: completed_def)

lemma event_loop_ok:
  "0 \<le> i \<Longrightarrow> io_u_completed_nr w \<le> int (length (io_us_completed w)) \<Longrightarrow>
   \<exists>c'. event_loop i w = Inr (w\<lparr>io_us_completed := c'\<rparr>)
        \<and> length c' = length (io_us_completed w)
        \<and> (\<forall>j < length c'. c' ! j =
              (if nat i \<le> j \<and> int j < io_u_completed_nr w - 1
               then io_us_completed w ! (j + 1) else io_us_completed w ! j))"
proof (induction i w rule: event_loop.induct)
  case (1 i w)
  let ?c = "io_us_completed w"
  let ?n = "io_u_completed_nr w"
  show ?case
  proof (cases "i < ?n - 1")
    case False
    then have "event_loop i w = Inr (w\<lparr>io_us_completed := ?c\<rparr>)"
      by (subst event_loop.simps) simp
    moreover have "\<forall>j < length ?c. ?c ! j =
              (if nat i \<le> j \<and> int j < ?n - 1 then ?c ! (j + 1) else ?c ! j)"
      using False 1(2) by auto
    ultimately show ?thesis by blast
  next
    case True
    let ?c1 = "?c[nat i := ?c ! nat (i + 1)]"
    let ?w1 = "w\<lparr>io_us_completed := ?c1\<rparr>"
    have v: "valid_idx ?c i" "valid_idx ?c (i + 1)"
      using True 1(2,3) by (auto simp: valid_idx_def)
    have nv: "\<not> (\<not> valid_idx ?c i \<or> \<not> valid_idx ?c (i + 1))"
      using v by simp
    have p: "0 \<le> i + 1" "io_u_completed_nr ?w1 \<le> int (length (io_us_completed ?w1))"
      using 1(2,3) by simp_all
    from 1(1)[OF True nv p] obtain c' where
      cc: "event_loop (i + 1) ?w1 = Inr (?w1\<lparr>io_us_completed := c'\<rparr>)
        \<and> length c' = length (io_us_completed ?w1)
        \<and> (\<forall>j < length c'. c' ! j =
              (if nat (i + 1) \<le> j \<and> int j < io_u_completed_nr ?w1 - 1
               then io_us_completed ?w1 ! (j + 1) else io_us_completed ?w1 ! j))" ..
    have c1: "event_loop (i + 1) ?w1 = Inr (w\<lparr>io_us_completed := c'\<rparr>)"
      using cc by simp
    have c2: "length c' = length ?c"
      using cc by simp
    have e: "event_loop i w = Inr (w\<lparr>io_us_completed := c'\<rparr>)"
      using True v c1 by (subst event_loop.simps) simp
    have "c' ! j = (if nat i \<le> j \<and> int j < ?n - 1 then ?c ! (j + 1) else ?c ! j)"
      if j: "j < length c'" for j
    proof -
      have i: "nat (i + 1) = nat i + 1" "nat i < length ?c" "nat i + 1 < length ?c"
        using 1(2) v by (auto simp: valid_idx_def)
      have "c' ! j = (if nat (i + 1) \<le> j \<and> int j < io_u_completed_nr ?w1 - 1
               then io_us_completed ?w1 ! (j + 1) else io_us_completed ?w1 ! j)"
        using cc j by blast
      then have "c' ! j = (if nat i + 1 \<le> j \<and> int j < ?n - 1 then ?c1 ! (j + 1) else ?c1 ! j)"
        using i(1) by (simp cong: if_cong)
      then show ?thesis
        using i True j c2 1(2) by (cases "j = nat i") (auto simp: nth_list_update)
    qed
    with e c2 show ?thesis by blast
  qed
qed


lemma client_recv_loop_shape:
  "client_recv_loop i w = Inr w' \<Longrightarrow> \<exists>r'. w' = w\<lparr>rmt_us := r'\<rparr>"
proof (induction i w rule: client_recv_loop.induct)
  case (1 i w)
  show ?case
  proof (cases "i < rmt_nr w")
    case False
    then have "w' = w\<lparr>rmt_us := rmt_us w\<rparr>"
      using 1(2) by (subst (asm) client_recv_loop.simps) simp
    then show ?thesis by blast
  next
    case True
    let ?r = "blk_rmt_us (recv_buf w) ! nat i"
    let ?w1 = "w\<lparr>rmt_us := (rmt_us w)[nat i :=
                     \<lparr>rmt_buf = be64_to_cpu (rmt_buf ?r), rmt_rkey = ntohl (rmt_rkey ?r),
                      rmt_size = ntohl (rmt_size ?r)\<rparr>]\<rparr>"
    have nv: "\<not> (\<not> valid_idx (rmt_us w) i \<or> \<not> valid_idx (blk_rmt_us (recv_buf w)) i)"
      using True 1(2) by (subst (asm) client_recv_loop.simps) (auto split: if_splits)
    then have "client_recv_loop (i + 1) ?w1 = Inr w'"
      using True 1(2) by (subst (asm) client_recv_loop.simps) (simp add: Let_def)
    from 1(1)[OF True nv refl this] obtain r' where "w' = ?w1\<lparr>rmt_us := r'\<rparr>" ..
    then have "w' = w\<lparr>rmt_us := r'\<rparr>" by simp
    then show ?thesis by blast
  qed
qed

lemma client_recv_shape:
  "client_recv td wc w = Inr (r, w') \<Longrightarrow> \<exists>n' r'. w' = w\<lparr>rmt_nr := n', rmt_us := r'\<rparr>"
proof -
  assume a: "client_recv td wc w = Inr (r, w')"
  show ?thesis
  proof (cases "w' = w")
    case True
    then have "w' = w\<lparr>rmt_nr := rmt_nr w, rmt_us := rmt_us w\<rparr>" by simp
    then show ?thesis by blast
  next
    case False
    let ?w0 = "w\<lparr>rmt_nr := sint (ntohl (blk_nr (recv_buf w)))\<rparr>"
    from a False have "client_recv_loop 0 ?w0 = Inr w'"
      by (auto simp: client_recv_def Let_def split: if_splits sum.splits)
    then obtain r' where "w' = ?w0\<lparr>rmt_us := r'\<rparr>"
      using client_recv_loop_shape by blast
    then show ?thesis by blast
  qed
qed

lemma server_recv_shape:
  "server_recv td wc w = Inr (r, w') \<Longrightarrow> \<exists>p. w' = w\<lparr>librpma_protocol := p\<rparr>"
proof -
  assume a: "server_recv td wc w = Inr (r, w')"
  show ?thesis
  proof (cases "wc_wr_id wc = FIO_RDMA_MAX_IO_DEPTH")
    case True
    with a show ?thesis
      by (auto simp: server_recv_def Let_def split: if_splits)
  next
    case False
    with a have "w' = w\<lparr>librpma_protocol := librpma_protocol w\<rparr>"
      by (simp add: server_recv_def)
    then show ?thesis by blast
  qed
qed

lemma match_flight_shape:
  "match_flight b wc w = Inr w' \<Longrightarrow>
   \<exists>m c cn f fn. w' = w\<lparr>io_u_mem := m, io_us_completed := c, io_u_completed_nr := cn,
                         io_us_flight := f, io_u_flight_nr := fn\<rparr>"
proof -
  assume a: "match_flight b wc w = Inr w'"
  then obtain i w1 where
    w1: "(if i < io_u_flight_nr w then to_completed b wc i w else Inr w) = Inr w1"
    and d: "drop_flight i w1 = Inr w'"
    by (auto simp: match_flight_def split: sum.splits)
  have "\<exists>m c cn. w1 = w\<lparr>io_u_mem := m, io_us_completed := c, io_u_completed_nr := cn\<rparr>"
  proof (cases "i < io_u_flight_nr w")
    case False
    with w1 have "w1 = w\<lparr>io_u_mem := io_u_mem w, io_us_completed := io_us_completed w,
                         io_u_completed_nr := io_u_completed_nr w\<rparr>" by simp
    then show ?thesis by blast
  next
    case True
    with w1 have t: "to_completed b wc i w = Inr w1" by simp
    show ?thesis
    proof (cases b)
      case True
      with t show ?thesis
        by (simp add: to_completed_def Let_def split: if_splits) blast
    next
      case False
      with t have "w1 = w\<lparr>io_u_mem := io_u_mem w,
           io_us_completed := (io_us_completed w)[nat (io_u_completed_nr w) := io_us_flight w ! nat i],
           io_u_completed_nr := io_u_completed_nr w + 1\<rparr>"
        by (simp add: to_completed_def Let_def split: if_splits)
      then show ?thesis by blast
    qed
  qed
  then obtain m c cn where
    e1: "w1 = w\<lparr>io_u_mem := m, io_us_completed := c, io_u_completed_nr := cn\<rparr>" by blast
  have "\<exists>f fn. w' = w1\<lparr>io_us_flight := f, io_u_flight_nr := fn\<rparr>"
  proof (cases "i = io_u_flight_nr w1")
    case True
    with d have "w' = w1\<lparr>io_us_flight := io_us_flight w1, io_u_flight_nr := io_u_flight_nr w1\<rparr>"
      by (simp add: drop_flight_def)
    then show ?thesis by blast
  next
    case False
    with d show ?thesis
      by (simp add: drop_flight_def split: if_splits) blast
  qed
  then obtain f fn where "w' = w1\<lparr>io_us_flight := f, io_u_flight_nr := fn\<rparr>" by blast
  with e1 have "w' = w\<lparr>io_u_mem := m, io_us_completed := c, io_u_completed_nr := cn,
                         io_us_flight := f, io_u_flight_nr := fn\<rparr>" by simp
  then show ?thesis by blast
qed


lemma recv_posted:
  "(if is_client w = 1 then client_recv td wc w else server_recv td wc w) = Inr (r, w') \<Longrightarrow>
   posted w' = posted w"
proof (cases "is_client w = 1")
  case True
  assume "(if is_client w = 1 then client_recv td wc w else server_recv td wc w) = Inr (r, w')"
  with True have "client_recv td wc w = Inr (r, w')" by simp
  then obtain n' r' where "w' = w\<lparr>rmt_nr := n', rmt_us := r'\<rparr>"
    using client_recv_shape by blast
  then show ?thesis by simp
next
  case False
  assume "(if is_client w = 1 then client_recv td wc w else server_recv td wc w) = Inr (r, w')"
  with False have "server_recv td wc w = Inr (r, w')" by simp
  then obtain p where "w' = w\<lparr>librpma_protocol := p\<rparr>"
    using server_recv_shape by blast
  then show ?thesis by simp
qed

lemma match_flight_posted:
  "match_flight b wc w = Inr w' \<Longrightarrow> posted w' = posted w"
proof -
  assume "match_flight b wc w = Inr w'"
  then obtain m c cn f fn where
    "w' = w\<lparr>io_u_mem := m, io_us_completed := c, io_u_completed_nr := cn,
             io_us_flight := f, io_u_flight_nr := fn\<rparr>"
    using match_flight_shape by blast
  then show ?thesis by simp
qed

lemma handle_wc_posted:
  "handle_wc td wc w = Inr t \<Longrightarrow> posted (world_of t) = posted w"
proof -
  assume a: "handle_wc td wc w = Inr t"
  show ?thesis
  proof (cases "wc_status wc \<noteq> 0")
    case True
    with a show ?thesis by (auto simp: handle_wc_def)
  next
    case False
    note st = False
    show ?thesis
    proof (cases "wc_opcode wc = IBV_WC_RECV")
      case True
      with a st obtain r w1 where
        r: "(if is_client w = 1 then client_recv td wc w else server_recv td wc w) = Inr (r, w1)"
        by (auto simp: handle_wc_def split: sum.splits)
      have p1: "posted w1 = posted w"
        using r by (rule recv_posted)
      show ?thesis
      proof (cases "r \<noteq> 0 \<or> wc_wr_id wc = FIO_RDMA_MAX_IO_DEPTH")
        case True
        with a st r \<open>wc_opcode wc = IBV_WC_RECV\<close> have "world_of t = w1"
          by (auto simp: handle_wc_def split: if_splits)
        with p1 show ?thesis by simp
      next
        case False
        with a st r \<open>wc_opcode wc = IBV_WC_RECV\<close> obtain w2 where
          "match_flight True wc w1 = Inr w2" "t = Next w2"
          by (auto simp: handle_wc_def split: sum.splits if_splits)
        then show ?thesis
          using p1 match_flight_posted by fastforce
      qed
    next
      case False
      show ?thesis
      proof (cases "wc_wr_id wc = FIO_RDMA_MAX_IO_DEPTH \<or> (\<exists>k. wc_opcode wc = IBV_WC_OTHER k)")
        case True
        with a st False have "world_of t = w"
          by (auto simp: handle_wc_def split: ibv_wc_opcode.splits if_splits)
        then show ?thesis by simp
      next
        case False
        with a st \<open>wc_opcode wc \<noteq> IBV_WC_RECV\<close> obtain w2 where
          "match_flight False wc w = Inr w2" "t = Next w2"
          by (auto simp: handle_wc_def split: sum.splits ibv_wc_opcode.splits if_splits)
        then show ?thesis
          using match_flight_posted by fastforce
      qed
    qed
  qed
qed

lemma handler_loop_posted:
  "handler_loop td n es w = Inr (r, es', w') \<Longrightarrow> posted w' = posted w"
proof (induction es arbitrary: n w)
  case Nil
  then show ?case by simp
next
  case (Cons e es)
  show ?case
  proof (cases e)
    case (CQ_RET k)
    with Cons.prems show ?thesis by simp
  next
    case (CQE wc)
    with Cons.prems obtain t where t: "handle_wc td wc w = Inr t"
      by (auto split: sum.splits)
    show ?thesis
    proof (cases t)
      case (Ret k w1)
      with t CQE Cons.prems have "w' = w1" by simp
      with handle_wc_posted[OF t] Ret show ?thesis by simp
    next
      case (Next w1)
      with t CQE Cons.prems have
        "handler_loop td (n + 1) es (w1\<lparr>cq_event_num := cq_event_num w1 + 1\<rparr>) = Inr (r, es', w')"
        by simp
      from Cons.IH[OF this] handle_wc_posted[OF t] Next show ?thesis by simp
    qed
  qed
qed

lemma cq_event_handler_posted:
  "cq_event_handler td w = Inr (r, w') \<Longrightarrow> posted w' = posted w"
  by (auto simp: cq_event_handler_def split: sum.splits dest: handler_loop_posted)

lemma poll_wait_again_posted:
  "poll_wait_again td rs w = Inr (r, w') \<Longrightarrow> posted w' = posted w"
proof (induction rs arbitrary: w)
  case Nil
  then show ?case by simp
next
  case (Cons x rs)
  let ?w1 = "w\<lparr>recv_buf := (case received x of None \<Rightarrow> recv_buf w | Some b \<Rightarrow> b),
                cq := cq w @ arrived x, rounds := rs\<rparr>"
  show ?case
  proof (cases "get_cq_event_ret x \<noteq> 0 \<or> \<not> ev_cq_is_cq x \<or> req_notify_ret x \<noteq> 0")
    case True
    with Cons.prems have "w' = ?w1"
      by (auto simp: Let_def split: if_splits)
    then show ?thesis by simp
  next
    case False
    with Cons.prems obtain k w2 where h: "cq_event_handler td ?w1 = Inr (k, w2)"
      by (auto simp: Let_def split: sum.splits)
    have p2: "posted w2 = posted w"
      using cq_event_handler_posted[OF h] by simp
    show ?thesis
    proof (cases "k = 0")
      case True
      with Cons.prems False h have "poll_wait_again td rs w2 = Inr (r, w')"
        by (simp add: Let_def)
      from Cons.IH[OF this] p2 show ?thesis by simp
    next
      case k: False
      with Cons.prems False h have "w' = w2\<lparr>cq_event_num := cq_event_num w2 - 1\<rparr>"
        by (simp add: Let_def)
      with p2 show ?thesis by simp
    qed
  qed
qed

lemma librpma_poll_wait_posted:
  "librpma_poll_wait td w = Inr (r, w') \<Longrightarrow> posted w' = posted w"
  by (auto simp: librpma_poll_wait_def split: if_splits dest: poll_wait_again_posted)


lemma in_flight_prefix:
  assumes "in_flight w = xs @ p # ys"
  shows "int (length xs) < io_u_flight_nr w" "length xs < length (io_us_flight w)"
    "\<And>j. j \<le> length xs \<Longrightarrow> io_us_flight w ! j = (xs @ p # ys) ! j"
proof -
  let ?f = "io_us_flight w"
  let ?n = "nat (io_u_flight_nr w)"
  have t: "take ?n ?f = xs @ p # ys"
    using assms by (simp add: in_flight_def)
  then have "length (take ?n ?f) = length xs + 1 + length ys" by simp
  then have l: "length xs < ?n" "length xs < length ?f"
    by simp_all
  then show "int (length xs) < io_u_flight_nr w" "length xs < length (io_us_flight w)"
    by simp_all
  fix j assume "j \<le> length xs"
  then have "j < ?n" using l by simp
  then have "take ?n ?f ! j = ?f ! j" by simp
  then show "?f ! j = (xs @ p # ys) ! j" using t by simp
qed

lemma find_flight_first:
  assumes "in_flight w = xs @ p # ys"
    and "\<forall>x \<in> set xs. sel (io_u_mem w x) \<noteq> wid"
    and "sel (io_u_mem w p) = wid"
    and "j \<le> length xs"
  shows "find_flight sel wid (int j) w = Inr (int (length xs))"
  using assms(4)
proof (induction "length xs - j" arbitrary: j)
  case 0
  then have j: "j = length xs" by simp
  have "io_us_flight w ! j = p"
    using in_flight_prefix(3)[OF assms(1), of j] j by simp
  then show ?case
    using in_flight_prefix(1,2)[OF assms(1)] j assms(3)
    by (subst find_flight.simps) (simp add: valid_idx_def)
next
  case (Suc k)
  then have j: "j < length xs" by simp
  have "io_us_flight w ! j = xs ! j"
    using in_flight_prefix(3)[OF assms(1), of j] j by (simp add: nth_append)
  then have "sel (io_u_mem w (io_us_flight w ! j)) \<noteq> wid"
    using assms(2) j by simp
  moreover have "k = length xs - Suc j" "Suc j \<le> length xs"
    using Suc.hyps(2) j by simp_all
  then have "find_flight sel wid (int (Suc j)) w = Inr (int (length xs))"
    by (rule Suc.hyps(1))
  ultimately show ?case
    using in_flight_prefix(1,2)[OF assms(1)] j
    by (subst find_flight.simps) (simp add: valid_idx_def add.commute)
qed

lemma to_completed_appends:
  assumes "to_completed b wc i w = Inr w'"
  shows "completed w' = completed w @ [io_us_flight w ! nat i]"
    and "io_u_mem w' = (if b then (io_u_mem w)(io_us_flight w ! nat i :=
            (io_u_mem w (io_us_flight w ! nat i))
              \<lparr>resid := buflen (io_u_mem w (io_us_flight w ! nat i)) - ucast (wc_byte_len wc),
               error := 0\<rparr>) else io_u_mem w)"
proof -
  let ?p = "io_us_flight w ! nat i"
  have v: "valid_idx (io_us_completed w) (io_u_completed_nr w)"
    using assms by (cases b) (auto simp: to_completed_def Let_def split: if_splits)
  then have n: "0 \<le> io_u_completed_nr w" "nat (io_u_completed_nr w) < length (io_us_completed w)"
    by (auto simp: valid_idx_def)
  have c: "io_us_completed w' = (io_us_completed w)[nat (io_u_completed_nr w) := ?p]"
      "io_u_completed_nr w' = io_u_completed_nr w + 1"
    using assms by (cases b; auto simp: to_completed_def Let_def split: if_splits)+
  show "completed w' = completed w @ [?p]"
    using n c by (simp add: completed_def nat_add_distrib take_Suc_conv_app_nth)
  show "io_u_mem w' = (if b then (io_u_mem w)(?p :=
            (io_u_mem w ?p)\<lparr>resid := buflen (io_u_mem w ?p) - ucast (wc_byte_len wc),
               error := 0\<rparr>) else io_u_mem w)"
    using assms by (cases b) (auto simp: to_completed_def Let_def split: if_splits)
qed

lemma drop_flight_frame:
  assumes "drop_flight i w = Inr w'"
  shows "completed w' = completed w" "io_u_mem w' = io_u_mem w" "queued w' = queued w"
proof -
  have "io_us_completed w' = io_us_completed w \<and> io_u_completed_nr w' = io_u_completed_nr w
      \<and> io_u_mem w' = io_u_mem w \<and> io_us_queued w' = io_us_queued w
      \<and> io_u_queued_nr w' = io_u_queued_nr w"
    using assms by (auto simp: drop_flight_def split: if_splits)
  then show "completed w' = completed w" "io_u_mem w' = io_u_mem w" "queued w' = queued w"
    by (simp_all add: completed_def queued_def split: option.split)
qed

lemma match_flight_first:
  assumes "match_flight b wc w = Inr w'"
    and "in_flight w = xs @ p # ys"
    and "\<forall>x \<in> set xs. (if b then rq_wr_id else sq_wr_id) (io_u_mem w x) \<noteq> wc_wr_id wc"
    and "(if b then rq_wr_id else sq_wr_id) (io_u_mem w p) = wc_wr_id wc"
  shows "completed w' = completed w @ [p]"
    and "io_u_mem w' = (if b then (io_u_mem w)(p :=
            (io_u_mem w p)\<lparr>resid := buflen (io_u_mem w p) - ucast (wc_byte_len wc),
                           error := 0\<rparr>) else io_u_mem w)"
proof -
  let ?i = "int (length xs)"
  have f: "find_flight (if b then rq_wr_id else sq_wr_id) (wc_wr_id wc) 0 w = Inr ?i"
    using find_flight_first[OF assms(2,3,4), of 0] by simp
  have lt: "?i < io_u_flight_nr w"
    by (rule in_flight_prefix(1)[OF assms(2)])
  have p: "io_us_flight w ! nat ?i = p"
    using in_flight_prefix(3)[OF assms(2), of "length xs"] by simp
  from assms(1) f lt obtain w1 where
    t: "to_completed b wc ?i w = Inr w1" and d: "drop_flight ?i w1 = Inr w'"
    by (auto simp: match_flight_def split: sum.splits)
  show "completed w' = completed w @ [p]"
    using to_completed_appends(1)[OF t] drop_flight_frame(1)[OF d] p by simp
  show "io_u_mem w' = (if b then (io_u_mem w)(p :=
            (io_u_mem w p)\<lparr>resid := buflen (io_u_mem w p) - ucast (wc_byte_len wc),
                           error := 0\<rparr>) else io_u_mem w)"
    using to_completed_appends(2)[OF t] drop_flight_frame(2)[OF d] p by simp
qed


lemma recv_frame:
  assumes "(if is_client w = 1 then client_recv td wc w else server_recv td wc w) = Inr (r, w')"
  shows "in_flight w' = in_flight w" "completed w' = completed w" "queued w' = queued w"
    "io_u_mem w' = io_u_mem w"
proof -
  have "\<exists>n' r' p. w' = w\<lparr>rmt_nr := n', rmt_us := r', librpma_protocol := p\<rparr>"
  proof (cases "is_client w = 1")
    case True
    with assms have "client_recv td wc w = Inr (r, w')" by simp
    then obtain n' r' where "w' = w\<lparr>rmt_nr := n', rmt_us := r'\<rparr>"
      using client_recv_shape by blast
    then have "w' = w\<lparr>rmt_nr := n', rmt_us := r', librpma_protocol := librpma_protocol w\<rparr>"
      by simp
    then show ?thesis by blast
  next
    case False
    with assms have "server_recv td wc w = Inr (r, w')" by simp
    then obtain p where "w' = w\<lparr>librpma_protocol := p\<rparr>"
      using server_recv_shape by blast
    then have "w' = w\<lparr>rmt_nr := rmt_nr w, rmt_us := rmt_us w, librpma_protocol := p\<rparr>"
      by simp
    then show ?thesis by blast
  qed
  then obtain n' r' p where e: "w' = w\<lparr>rmt_nr := n', rmt_us := r', librpma_protocol := p\<rparr>"
    by blast
  show "in_flight w' = in_flight w" "completed w' = completed w" "queued w' = queued w"
    "io_u_mem w' = io_u_mem w"
    unfolding e by (simp_all add: in_flight_def completed_def queued_def split: option.split)
qed

lemmas run_defs = fio_librpmaio_connect_def get_next_channel_event_def librpma_poll_wait_def
  cq_event_handler_def handle_wc_def client_recv_def client_recv_loop.simps valid_idx_def
  handshake_world_def handshake_reply_def world0_def blk0_def td0_def htonl_def ntohl_def
  be64_to_cpu_def Let_def FIO_RDMA_MAX_IO_DEPTH_def FIO_RDMA_MEM_WRITE_def
  FIO_RDMA_MEM_READ_def sizeof_info_blk_def

lemma queued_loop_one:
  assumes "io_us_queued w = Some q" "off < length q"
    and "0 \<le> io_u_flight_nr w" "nat (io_u_flight_nr w) < length (io_us_flight w)"
  shows "fio_librpmaio_queued_loop off 0 1 w =
           Inr (w\<lparr>io_us_flight := (io_us_flight w)[nat (io_u_flight_nr w) := q ! off],
                  io_u_flight_nr := io_u_flight_nr w + 1\<rparr>)"
  using assms by (simp add: valid_idx_def)

lemma commit_loop_moves:
  assumes "is_client w \<noteq> 0" "fill_issue_time td" "io_us_queued w = Some q"
    and "io_u_queued_nr w = int (Suc n)" "off + Suc n \<le> length q" "cap = length q"
    and "0 \<le> io_u_flight_nr w"
    and "nat (io_u_flight_nr w) + Suc n \<le> length (io_us_flight w)"
  shows "\<exists>w'. commit_loop td cap off w = Inr (0, w')
           \<and> io_u_queued_nr w' = 0 \<and> io_us_queued w' = Some q
           \<and> in_flight w' = in_flight w @ take (Suc n) (drop off q)
           \<and> io_us_completed w' = io_us_completed w
           \<and> io_u_completed_nr w' = io_u_completed_nr w
           \<and> io_u_mem w' = io_u_mem w"
  using assms
proof (induction n arbitrary: w off)
  case 0
  let ?f = "io_us_flight w"
  let ?k = "nat (io_u_flight_nr w)"
  let ?wp = "w\<lparr>posted := posted w @ [RPMA_FLUSH (dst_offset w) KILOBYTE]\<rparr>"
  let ?w1 = "?wp\<lparr>io_us_flight := ?f[?k := q ! off], io_u_flight_nr := io_u_flight_nr w + 1\<rparr>"
  let ?w2 = "?w1\<lparr>io_u_queued_nr := 0\<rparr>"
  have ql: "fio_librpmaio_queued td off 1 ?wp = Inr ?w1"
    using 0 queued_loop_one[of ?wp q off] by (simp add: fio_librpmaio_queued_def)
  have c: "commit_loop td cap off w = Inr (0, ?w2)"
    using 0 ql by (subst commit_loop.simps) (simp add: Let_def)
  have "in_flight ?w2 = in_flight w @ take (Suc 0) (drop off q)"
    using 0 by (simp add: in_flight_def nat_add_distrib take_Suc_conv_app_nth
        take_Suc_conv_app_nth[of 0] hd_drop_conv_nth)
  with c 0 show ?case by simp
next
  case (Suc n)
  let ?f = "io_us_flight w"
  let ?k = "nat (io_u_flight_nr w)"
  let ?wp = "w\<lparr>posted := posted w @ [RPMA_FLUSH (dst_offset w) KILOBYTE]\<rparr>"
  let ?w1 = "?wp\<lparr>io_us_flight := ?f[?k := q ! off], io_u_flight_nr := io_u_flight_nr w + 1\<rparr>"
  let ?w2 = "?w1\<lparr>io_u_queued_nr := int (Suc n)\<rparr>"
  have ql: "fio_librpmaio_queued td off 1 ?wp = Inr ?w1"
    using Suc.prems queued_loop_one[of ?wp q off] by (simp add: fio_librpmaio_queued_def)
  have c: "commit_loop td cap off w = commit_loop td cap (off + 1) ?w2"
    using Suc.prems ql by (subst commit_loop.simps) (simp add: Let_def)
  have "\<exists>w'. commit_loop td cap (off + 1) ?w2 = Inr (0, w')
           \<and> io_u_queued_nr w' = 0 \<and> io_us_queued w' = Some q
           \<and> in_flight w' = in_flight ?w2 @ take (Suc n) (drop (off + 1) q)
           \<and> io_us_completed w' = io_us_completed ?w2
           \<and> io_u_completed_nr w' = io_u_completed_nr ?w2
           \<and> io_u_mem w' = io_u_mem ?w2"
    using Suc.prems by (intro Suc.IH) (simp_all add: nat_add_distrib)
  then obtain w' where w': "commit_loop td cap (off + 1) ?w2 = Inr (0, w')"
    "io_u_queued_nr w' = 0" "io_us_queued w' = Some q"
    "in_flight w' = in_flight ?w2 @ take (Suc n) (drop (off + 1) q)"
    "io_us_completed w' = io_us_completed w" "io_u_completed_nr w' = io_u_completed_nr w"
    "io_u_mem w' = io_u_mem w"
    by auto
  have "in_flight ?w2 = in_flight w @ [q ! off]"
    using Suc.prems by (simp add: in_flight_def nat_add_distrib take_Suc_conv_app_nth)
  moreover have "take (Suc (Suc n)) (drop off q) = q ! off # take (Suc n) (drop (off + 1) q)"
    using Suc.prems by (simp add: Cons_nth_drop_Suc[symmetric])
  ultimately have "in_flight w' = in_flight w @ take (Suc (Suc n)) (drop off q)"
    using w'(4) by simp
  with c w' show ?case by simp
qed


lemma find_flight_none:
  assumes "0 \<le> i" "io_u_flight_nr w \<le> int (length (io_us_flight w))"
    and "\<forall>j. nat i \<le> j \<and> int j < io_u_flight_nr w \<longrightarrow>
           sel (io_u_mem w (io_us_flight w ! j)) \<noteq> wid"
    and "i \<le> io_u_flight_nr w"
  shows "find_flight sel wid i w = Inr (io_u_flight_nr w)"
  using assms
proof (induction sel wid i w rule: find_flight.induct)
  case (1 sel wid i w)
  show ?case
  proof (cases "i < io_u_flight_nr w")
    case False
    with 1(5) have "i = io_u_flight_nr w" by simp
    then show ?thesis by (subst find_flight.simps) simp
  next
    case True
    have v: "valid_idx (io_us_flight w) i"
      using True 1(2,3) by (simp add: valid_idx_def)
    have ne: "wid \<noteq> sel (io_u_mem w (io_us_flight w ! nat i))"
      using 1(4)[rule_format, of "nat i"] True 1(2) by auto
    have nv: "\<not> \<not> valid_idx (io_us_flight w) i" using v by simp
    have "\<forall>j. nat (i + 1) \<le> j \<and> int j < io_u_flight_nr w \<longrightarrow>
           sel (io_u_mem w (io_us_flight w ! j)) \<noteq> wid"
    proof (intro allI impI)
      fix j assume a: "nat (i + 1) \<le> j \<and> int j < io_u_flight_nr w"
      then have "nat i \<le> j" by linarith
      with 1(4) a show "sel (io_u_mem w (io_us_flight w ! j)) \<noteq> wid" by blast
    qed
    moreover have "0 \<le> i + 1" "i + 1 \<le> io_u_flight_nr w"
      using 1(2) True by simp_all
    ultimately have "find_flight sel wid (i + 1) w = Inr (io_u_flight_nr w)"
      using 1(3) by (intro 1(1)[OF True nv ne])
    then show ?thesis
      using True v ne by (subst find_flight.simps) simp
  qed
qed


lemma drop_flight_removes:
  assumes "drop_flight (int (length xs)) w = Inr w'" and "in_flight w = xs @ p # ys"
  shows "in_flight w' = (xs @ butlast (p # ys))[length xs := last (p # ys)]"
proof -
  let ?f = "io_us_flight w"
  let ?n = "io_u_flight_nr w"
  let ?F = "take (nat ?n) ?f"
  have F: "?F = xs @ p # ys"
    using assms(2) by (simp add: in_flight_def)
  have lt: "int (length xs) < ?n"
    by (rule in_flight_prefix(1)[OF assms(2)])
  then have ne: "int (length xs) \<noteq> ?n" by simp
  have v: "valid_idx ?f (?n - 1)"
    using assms(1) ne by (auto simp: drop_flight_def split: if_splits)
  then have n: "0 < ?n" "nat ?n \<le> length ?f"
    by (auto simp: valid_idx_def)
  have w': "w' = w\<lparr>io_us_flight := ?f[length xs := ?f ! nat (?n - 1)], io_u_flight_nr := ?n - 1\<rparr>"
    using assms(1) ne by (auto simp: drop_flight_def split: if_splits)
  have m: "nat (?n - 1) = nat ?n - 1"
    using n by simp
  have lF: "length ?F = nat ?n"
    using n by simp
  have "?F \<noteq> []" using F by simp
  then have "last ?F = ?F ! (length ?F - 1)"
    by (rule last_conv_nth)
  then have l: "?f ! (nat ?n - 1) = last ?F"
    using lF n by simp
  have b: "take (nat ?n - 1) ?f = butlast ?F"
    using n by (simp add: butlast_take)
  have "in_flight w' = take (nat ?n - 1) (?f[length xs := ?f ! (nat ?n - 1)])"
    using w' m by (simp add: in_flight_def)
  also have "\<dots> = (take (nat ?n - 1) ?f)[length xs := ?f ! (nat ?n - 1)]"
    by (rule take_update_swap)
  also have "\<dots> = (butlast ?F)[length xs := last ?F]"
    using b l by simp
  also have "\<dots> = (xs @ butlast (p # ys))[length xs := last (p # ys)]"
    unfolding F by (simp add: butlast_append)
  finally show ?thesis .
qed

lemma to_completed_frame:
  assumes "to_completed b wc i w = Inr w'"
  shows "in_flight w' = in_flight w" "queued w' = queued w"
proof -
  have "io_us_flight w' = io_us_flight w \<and> io_u_flight_nr w' = io_u_flight_nr w
      \<and> io_us_queued w' = io_us_queued w \<and> io_u_queued_nr w' = io_u_queued_nr w"
    using assms by (cases b) (auto simp: to_completed_def Let_def split: if_splits)
  then show "in_flight w' = in_flight w" "queued w' = queued w"
    by (simp_all add: in_flight_def queued_def split: option.split)
qed

lemma match_flight_removes:
  assumes "match_flight b wc w = Inr w'"
    and "in_flight w = xs @ p # ys"
    and "\<forall>x \<in> set xs. (if b then rq_wr_id else sq_wr_id) (io_u_mem w x) \<noteq> wc_wr_id wc"
    and "(if b then rq_wr_id else sq_wr_id) (io_u_mem w p) = wc_wr_id wc"
  shows "in_flight w' = (xs @ butlast (p # ys))[length xs := last (p # ys)]"
    and "queued w' = queued w"
proof -
  let ?i = "int (length xs)"
  have f: "find_flight (if b then rq_wr_id else sq_wr_id) (wc_wr_id wc) 0 w = Inr ?i"
    using find_flight_first[OF assms(2,3,4), of 0] by simp
  have lt: "?i < io_u_flight_nr w"
    by (rule in_flight_prefix(1)[OF assms(2)])
  from assms(1) f lt obtain w1 where
    t: "to_completed b wc ?i w = Inr w1" and d: "drop_flight ?i w1 = Inr w'"
    by (auto simp: match_flight_def split: sum.splits)
  have "in_flight w1 = xs @ p # ys"
    using to_completed_frame(1)[OF t] assms(2) by simp
  then show "in_flight w' = (xs @ butlast (p # ys))[length xs := last (p # ys)]"
    by (rule drop_flight_removes[OF d])
  show "queued w' = queued w"
    using to_completed_frame(2)[OF t] drop_flight_frame(3)[OF d] by simp
qed

lemma swap_remove_distinct:
  assumes "distinct (xs @ p # ys)"
  shows "distinct ((xs @ butlast (p # ys))[length xs := last (p # ys)])"
    and "set ((xs @ butlast (p # ys))[length xs := last (p # ys)]) = set (xs @ p # ys) - {p}"
proof -
  show "distinct ((xs @ butlast (p # ys))[length xs := last (p # ys)])"
    using assms by (cases ys rule: rev_cases) (auto simp: list_update_append list_update_beyond)
  show "set ((xs @ butlast (p # ys))[length xs := last (p # ys)]) = set (xs @ p # ys) - {p}"
    using assms by (cases ys rule: rev_cases) (auto simp: list_update_append list_update_beyond)
qed

section \<open>Properties\<close>

text \<open>
  C1. Every request is to be in exactly one of the three collections and to move only
  forward, from queued to in-flight to completed. \<^verbatim>\<open>fio_librpmaio_commit\<close> breaks this when
  \<^verbatim>\<open>fio_fill_issue_time\<close> is false: \<^verbatim>\<open>fio_librpmaio_queued\<close> then returns before its
  "queued -> flight" loop, while the commit loop still takes the request off the queued
  count. The queued request 7 is afterwards in none of the three collections. With
  \<^verbatim>\<open>fio_fill_issue_time\<close> true the same call moves it to the in-flight collection.
\<close>

theorem commit_drops_request:
  "fio_librpmaio_commit (td0\<lparr>fill_issue_time := False\<rparr>)
      (world0\<lparr>io_us_queued := Some [7, 0, 0, 0], io_u_queued_nr := 1\<rparr>)
   = Inr (0, world0\<lparr>io_us_queued := Some [7, 0, 0, 0], io_u_queued_nr := 0,
                     posted := [RPMA_FLUSH 0 1024]\<rparr>)
   \<and> queued (world0\<lparr>io_us_queued := Some [7, 0, 0, 0], io_u_queued_nr := 1\<rparr>) = [7]
   \<and> queued (world0\<lparr>io_us_queued := Some [7, 0, 0, 0], io_u_queued_nr := 0,
                     posted := [RPMA_FLUSH 0 1024]\<rparr>) = []
   \<and> in_flight (world0\<lparr>io_us_queued := Some [7, 0, 0, 0], io_u_queued_nr := 0,
                     posted := [RPMA_FLUSH 0 1024]\<rparr>) = []
   \<and> completed (world0\<lparr>io_us_queued := Some [7, 0, 0, 0], io_u_queued_nr := 0,
                     posted := [RPMA_FLUSH 0 1024]\<rparr>) = []
   \<and> fio_librpmaio_commit td0
      (world0\<lparr>io_us_queued := Some [7, 0, 0, 0], io_u_queued_nr := 1\<rparr>)
   = Inr (0, world0\<lparr>io_us_queued := Some [7, 0, 0, 0], io_u_queued_nr := 0,
                     io_us_flight := [7, 0, 0, 0], io_u_flight_nr := 1,
                     posted := [RPMA_FLUSH 0 1024]\<rparr>)"
  by (simp add: fio_librpmaio_commit_def commit_loop.simps fio_librpmaio_queued_def
      valid_idx_def world0_def td0_def queued_def in_flight_def completed_def KILOBYTE_def
      Let_def)

text \<open>
  C2, as amended. A completion whose status is not success ends the handler at once: the
  turn returns \<open>-1\<close> with the state untouched, so no request receives an error or changes
  collection, and the entries behind it stay in the completion queue. In
  \<^verbatim>\<open>fio_librpmaio_getevents\<close> such a wake-up counts as no completion and the call goes on to
  wait for the next one; in \<^verbatim>\<open>librpma_poll_wait\<close> the \<open>-1\<close> is the result of the call.
\<close>

theorem failed_completion_stops_handler:
  assumes "wc_status wc \<noteq> 0"
  shows "handle_wc td wc w = Inr (Ret (- 1) w)
       \<and> handler_loop td n (CQE wc # es) w = Inr (- 1, es, w)
       \<and> (cq w = CQE wc # es \<longrightarrow> cq_event_handler td w = Inr (- 1, w\<lparr>cq := es\<rparr>))
       \<and> (get_cq_event_ret x = 0 \<and> ev_cq_is_cq x \<and> req_notify_ret x = 0
            \<and> cq w @ arrived x = CQE wc # es \<longrightarrow>
            getevents_again td mn r (x # rs) w =
              getevents_again td mn r rs
                (w\<lparr>recv_buf := (case received x of None \<Rightarrow> recv_buf w | Some b \<Rightarrow> b),
                   rounds := rs, cq := es\<rparr>)
            \<and> poll_wait_again td (x # rs) w =
              Inr (- 1, w\<lparr>recv_buf := (case received x of None \<Rightarrow> recv_buf w | Some b \<Rightarrow> b),
                          rounds := rs, cq := es, cq_event_num := cq_event_num w - 1\<rparr>))"
proof -
  have h: "handle_wc td wc w' = Inr (Ret (- 1) w')" for w'
    using assms by (simp add: handle_wc_def)
  have l: "handler_loop td n' (CQE wc # es) w' = Inr (- 1, es, w')" for n' w'
    using h by simp
  have c: "cq_event_handler td w' = Inr (- 1, w'\<lparr>cq := es\<rparr>)" if "cq w' = CQE wc # es" for w'
    using that l by (simp add: cq_event_handler_def)
  have g: "getevents_again td mn r (x # rs) w =
              getevents_again td mn r rs
                (w\<lparr>recv_buf := (case received x of None \<Rightarrow> recv_buf w | Some b \<Rightarrow> b),
                   rounds := rs, cq := es\<rparr>)"
    if a: "get_cq_event_ret x = 0 \<and> ev_cq_is_cq x \<and> req_notify_ret x = 0
            \<and> cq w @ arrived x = CQE wc # es"
  proof -
    let ?w1 = "w\<lparr>recv_buf := (case received x of None \<Rightarrow> recv_buf w | Some b \<Rightarrow> b),
                cq := cq w @ arrived x, rounds := rs\<rparr>"
    have "cq ?w1 = CQE wc # es" using a by simp
    then have e: "cq_event_handler td ?w1 = Inr (- 1, ?w1\<lparr>cq := es\<rparr>)" by (rule c)
    have "getevents_again td mn r (x # rs) w = getevents_again td mn r rs (?w1\<lparr>cq := es\<rparr>)"
      using a unfolding getevents_again.simps Let_def e by simp
    then show ?thesis by simp
  qed
  have p: "poll_wait_again td (x # rs) w =
              Inr (- 1, w\<lparr>recv_buf := (case received x of None \<Rightarrow> recv_buf w | Some b \<Rightarrow> b),
                          rounds := rs, cq := es, cq_event_num := cq_event_num w - 1\<rparr>)"
    if a: "get_cq_event_ret x = 0 \<and> ev_cq_is_cq x \<and> req_notify_ret x = 0
            \<and> cq w @ arrived x = CQE wc # es"
  proof -
    let ?w1 = "w\<lparr>recv_buf := (case received x of None \<Rightarrow> recv_buf w | Some b \<Rightarrow> b),
                cq := cq w @ arrived x, rounds := rs\<rparr>"
    have "cq ?w1 = CQE wc # es" using a by simp
    then have e: "cq_event_handler td ?w1 = Inr (- 1, ?w1\<lparr>cq := es\<rparr>)" by (rule c)
    show ?thesis
      using a unfolding poll_wait_again.simps Let_def e by simp
  qed
  show ?thesis using h l c g p by blast
qed

text \<open>A failed completion for request 7, which is in flight.\<close>

theorem failed_completion_stops_handler_witness:
  "cq_event_handler td0
     (flight_world\<lparr>cq := [CQE \<lparr>wc_status = 5, wc_opcode = IBV_WC_RDMA_WRITE, wc_wr_id = 7,
                                  wc_byte_len = 0\<rparr>]\<rparr>)
   = Inr (- 1, flight_world\<lparr>cq := []\<rparr>)"
proof -
  let ?wc = "\<lparr>wc_status = 5, wc_opcode = IBV_WC_RDMA_WRITE, wc_wr_id = 7, wc_byte_len = 0\<rparr>"
  have "wc_status ?wc \<noteq> 0" by simp
  from failed_completion_stops_handler[OF this, where td = td0
      and w = "flight_world\<lparr>cq := [CQE ?wc]\<rparr>" and es = "[]"]
  show ?thesis by simp
qed

text \<open>
  C2 as stated fails: requests 7 and 8 are in flight, the completion of 7 reports status 5
  and is followed by a successful completion of 8. The handler returns \<open>-1\<close>; the error
  field of request 7 is still 0, both requests are still in flight, nothing is completed,
  and the completion of 8 is left in the queue.
\<close>

theorem failed_completion_not_attached:
  "cq_event_handler td0
     (flight_world\<lparr>cq := [CQE \<lparr>wc_status = 5, wc_opcode = IBV_WC_RDMA_WRITE, wc_wr_id = 7,
                                  wc_byte_len = 0\<rparr>,
                            CQE \<lparr>wc_status = 0, wc_opcode = IBV_WC_RDMA_WRITE, wc_wr_id = 8,
                                  wc_byte_len = 0\<rparr>]\<rparr>)
   = Inr (- 1, flight_world\<lparr>cq := [CQE \<lparr>wc_status = 0, wc_opcode = IBV_WC_RDMA_WRITE,
                                               wc_wr_id = 8, wc_byte_len = 0\<rparr>]\<rparr>)
   \<and> error (io_u_mem flight_world 7) = 0
   \<and> in_flight flight_world = [7, 8]
   \<and> completed flight_world = []"
  by (simp add: cq_event_handler_def handle_wc_def flight_world_def world0_def io_u0_def
      in_flight_def completed_def)

text \<open>
  C3. When the queued counter equals the configured depth, \<^verbatim>\<open>fio_librpmaio_queue\<close> returns
  \<^verbatim>\<open>FIO_Q_BUSY\<close> and leaves the whole engine state, hence the queued collection and its
  count, unchanged. When the counter is below the depth (and the queued array has a cell
  at that index), it returns \<^verbatim>\<open>FIO_Q_QUEUED\<close> and the request is appended to the queued
  collection; the other two collections are untouched. The assertion \<^verbatim>\<open>fio_ro_check\<close> is
  assumed to hold, and the counter is a C \<^verbatim>\<open>int\<close>.
\<close>

theorem queue_depth_limit:
  assumes "fio_ro_check td (io_u_mem w io_u)"
  shows "(c_int (io_u_queued_nr w) \<and> io_u_queued_nr w = uint (iodepth td) \<longrightarrow>
            fio_librpmaio_queue td io_u w = Inr (FIO_Q_BUSY, w))
       \<and> (io_us_queued w = Some q \<and> valid_idx q (io_u_queued_nr w)
            \<and> io_u_queued_nr w < uint (iodepth td) \<longrightarrow>
            (\<exists>w'. fio_librpmaio_queue td io_u w = Inr (FIO_Q_QUEUED, w')
               \<and> queued w' = queued w @ [io_u]
               \<and> io_u_queued_nr w' = io_u_queued_nr w + 1
               \<and> in_flight w' = in_flight w \<and> completed w' = completed w))"
proof (intro conjI impI)
  assume a: "c_int (io_u_queued_nr w) \<and> io_u_queued_nr w = uint (iodepth td)"
  then have "uint (iodepth td) < 2147483648"
    by (simp add: c_int_def)
  then have "sint (iodepth td) = uint (iodepth td)"
    by (rule sint_small_uint)
  then show "fio_librpmaio_queue td io_u w = Inr (FIO_Q_BUSY, w)"
    using a assms by (simp add: fio_librpmaio_queue_def)
next
  assume a: "io_us_queued w = Some q \<and> valid_idx q (io_u_queued_nr w)
            \<and> io_u_queued_nr w < uint (iodepth td)"
  let ?n = "io_u_queued_nr w"
  have n: "0 \<le> ?n" "nat ?n < length q"
    using a by (auto simp: valid_idx_def)
  have "sint (iodepth td) < 0 \<or> sint (iodepth td) = uint (iodepth td)"
    using sint_nonneg_uint[of "iodepth td"] by linarith
  then have ne: "?n \<noteq> sint (iodepth td)"
    using a n by auto
  let ?w1 = "w\<lparr>io_us_queued := Some (q[nat ?n := io_u]), io_u_queued_nr := ?n + 1\<rparr>"
  let ?w2 = "case ddir (io_u_mem ?w1 io_u) of
               DDIR_WRITE \<Rightarrow> ?w1\<lparr>posted := posted ?w1 @ [RPMA_WRITE (dst_offset ?w1) 0 KILOBYTE]\<rparr>
             | _ \<Rightarrow> ?w1"
  have r: "fio_librpmaio_queue td io_u w = Inr (FIO_Q_QUEUED, ?w2)"
    using a ne assms by (simp add: fio_librpmaio_queue_def Let_def)
  have q1: "queued ?w1 = queued w @ [io_u]"
    using a n by (simp add: queued_def nat_add_distrib take_Suc_conv_app_nth)
  have f: "io_us_queued ?w2 = io_us_queued ?w1" "io_u_queued_nr ?w2 = io_u_queued_nr ?w1"
     "io_us_flight ?w2 = io_us_flight w" "io_u_flight_nr ?w2 = io_u_flight_nr w"
     "io_us_completed ?w2 = io_us_completed w" "io_u_completed_nr ?w2 = io_u_completed_nr w"
    by (simp_all split: fio_ddir.split)
  have "queued ?w2 = queued ?w1"
    using f(1,2) by (rule queued_cong)
  moreover have "in_flight ?w2 = in_flight w"
    using f(3,4) by (rule in_flight_cong)
  moreover have "completed ?w2 = completed w"
    using f(5,6) by (rule completed_cong)
  ultimately have "queued ?w2 = queued w @ [io_u]" "io_u_queued_nr ?w2 = ?n + 1"
     "in_flight ?w2 = in_flight w" "completed ?w2 = completed w"
    using q1 f(2) by simp_all
  with r show "\<exists>w'. fio_librpmaio_queue td io_u w = Inr (FIO_Q_QUEUED, w')
               \<and> queued w' = queued w @ [io_u]
               \<and> io_u_queued_nr w' = io_u_queued_nr w + 1
               \<and> in_flight w' = in_flight w \<and> completed w' = completed w"
    by blast
qed


text \<open>The depth-4 job: a fifth request is refused, a first one is accepted.\<close>

theorem queue_depth_limit_witness:
  "fio_librpmaio_queue td0 7 (world0\<lparr>io_u_queued_nr := 4\<rparr>)
     = Inr (FIO_Q_BUSY, world0\<lparr>io_u_queued_nr := 4\<rparr>)
   \<and> (\<exists>w'. fio_librpmaio_queue td0 7 world0 = Inr (FIO_Q_QUEUED, w')
          \<and> queued w' = queued world0 @ [7] \<and> io_u_queued_nr w' = 1)"
proof -
  have ro: "fio_ro_check td0 (io_u_mem w 7)" if "io_u_mem w = io_u0" for w :: world
    using that by (simp add: fio_ro_check_def td0_def io_u0_def)
  have "c_int (io_u_queued_nr (world0\<lparr>io_u_queued_nr := 4\<rparr>))
        \<and> io_u_queued_nr (world0\<lparr>io_u_queued_nr := 4\<rparr>) = uint (iodepth td0)"
    by (simp add: c_int_def td0_def)
  moreover have "io_us_queued world0 = Some [0, 0, 0, 0] \<and> valid_idx [0, 0, 0, 0 :: nat] (io_u_queued_nr world0)
        \<and> io_u_queued_nr world0 < uint (iodepth td0)"
    by (simp add: world0_def td0_def valid_idx_def)
  ultimately show ?thesis
    using queue_depth_limit[of td0 "world0\<lparr>io_u_queued_nr := 4\<rparr>" 7]
      queue_depth_limit[of td0 world0 7 "[0, 0, 0, 0]"] ro[of world0]
      ro[of "world0\<lparr>io_u_queued_nr := 4\<rparr>"]
    by (auto simp: world0_def)
qed




text \<open>
  C5, as amended. \<^verbatim>\<open>fio_librpmaio_queue\<close> never changes \<^verbatim>\<open>dst_offset\<close>. For an accepted
  write request it makes exactly one call of \<^verbatim>\<open>rpma_write\<close>, with destination offset
  \<^verbatim>\<open>dst_offset\<close>, source offset 0 and length \<^verbatim>\<open>KILOBYTE\<close>; for an accepted request of another
  direction, and for a refused request, it makes no call.
\<close>

theorem queue_work_request:
  assumes "fio_librpmaio_queue td io_u w = Inr (st, w')"
  shows "dst_offset w' = dst_offset w
       \<and> posted w' = posted w @
           (if st = FIO_Q_QUEUED \<and> ddir (io_u_mem w io_u) = DDIR_WRITE
            then [RPMA_WRITE (dst_offset w) 0 KILOBYTE] else [])"
  using assms
  by (auto simp: fio_librpmaio_queue_def Let_def split: if_splits option.splits fio_ddir.splits)

text \<open>The first write of the depth-4 job.\<close>

theorem queue_work_request_witness:
  "\<exists>w'. fio_librpmaio_queue td0 7 world0 = Inr (FIO_Q_QUEUED, w')
        \<and> dst_offset w' = 0 \<and> posted w' = [RPMA_WRITE 0 0 1024]"
proof -
  have "\<exists>w'. fio_librpmaio_queue td0 7 world0 = Inr (FIO_Q_QUEUED, w')"
    by (simp add: fio_librpmaio_queue_def fio_ro_check_def valid_idx_def td0_def world0_def
        io_u0_def Let_def)
  then obtain w' where q: "fio_librpmaio_queue td0 7 world0 = Inr (FIO_Q_QUEUED, w')" ..
  from queue_work_request[OF q] have "dst_offset w' = 0 \<and> posted w' = [RPMA_WRITE 0 0 1024]"
    by (simp add: world0_def io_u0_def KILOBYTE_def)
  with q show ?thesis by blast
qed

text \<open>
  C5 as stated fails: two successive writes of 4096 bytes each produce two \<^verbatim>\<open>rpma_write\<close>
  calls of 1024 bytes, both at destination offset 0.
\<close>

theorem queue_fixed_length_and_offset:
  "buflen (io_u_mem world0 7) = 4096
   \<and> fio_librpmaio_queue td0 7 world0 =
       Inr (FIO_Q_QUEUED, world0\<lparr>io_us_queued := Some [7, 0, 0, 0], io_u_queued_nr := 1,
                                  posted := [RPMA_WRITE 0 0 1024]\<rparr>)
   \<and> fio_librpmaio_queue td0 8
        (world0\<lparr>io_us_queued := Some [7, 0, 0, 0], io_u_queued_nr := 1,
                posted := [RPMA_WRITE 0 0 1024]\<rparr>) =
       Inr (FIO_Q_QUEUED, world0\<lparr>io_us_queued := Some [7, 8, 0, 0], io_u_queued_nr := 2,
                                  posted := [RPMA_WRITE 0 0 1024, RPMA_WRITE 0 0 1024]\<rparr>)"
  by (simp add: fio_librpmaio_queue_def fio_ro_check_def valid_idx_def td0_def world0_def
      io_u0_def Let_def KILOBYTE_def)

text \<open>
  C6, as amended. When \<^verbatim>\<open>rdma_connect\<close>, the wait for the established event and
  \<^verbatim>\<open>ibv_post_send\<close> succeed, \<^verbatim>\<open>fio_librpmaio_connect\<close> posts exactly one work request, the
  control send buffer with the mode field set to \<^verbatim>\<open>htonl(librpma_protocol)\<close> and the count
  field set to \<^verbatim>\<open>htonl(iodepth)\<close>; the block-size field and the region entries are what
  the buffer held before.
\<close>

theorem connect_first_message:
  assumes "fio_librpmaio_connect td w = Inr (r, w')"
    and "rdma_connect_ret w = 0"
    and "cm_events w = (0, RDMA_CM_EVENT_ESTABLISHED, cmid) # es"
    and "post_send_ret w = 0"
  shows "posted w' = posted w @ [IBV_POST_SEND ((send_buf w)\<lparr>blk_mode := htonl (librpma_protocol w),
                                                          blk_nr := htonl (iodepth td)\<rparr>)]"
proof -
  let ?w1 = "w\<lparr>cm_events := es\<rparr>"
  let ?sb = "(send_buf w)\<lparr>blk_mode := htonl (librpma_protocol w), blk_nr := htonl (iodepth td)\<rparr>"
  let ?w2 = "?w1\<lparr>send_buf := ?sb\<rparr>"
  let ?w3 = "?w2\<lparr>posted := posted w @ [IBV_POST_SEND ?sb]\<rparr>"
  have g: "get_next_channel_event RDMA_CM_EVENT_ESTABLISHED w = Inr (0, ?w1)"
    using assms(3) by (simp add: get_next_channel_event_def)
  have c: "fio_librpmaio_connect td w =
      (case librpma_poll_wait td ?w3 of
         Inl e \<Rightarrow> Inl e
       | Inr (r1, w4) \<Rightarrow>
           if r1 < 0 then Inr (1, w4)
           else (case librpma_poll_wait td w4 of
                   Inl e \<Rightarrow> Inl e
                 | Inr (r2, w5) \<Rightarrow> if r2 < 0 then Inr (1, w5) else Inr (0, w5)))"
    using assms(2,4) g by (simp add: fio_librpmaio_connect_def Let_def)
  from assms(1) c obtain r1 w4 where p1: "librpma_poll_wait td ?w3 = Inr (r1, w4)"
    by (auto split: sum.splits)
  have q4: "posted w4 = posted w @ [IBV_POST_SEND ?sb]"
    using librpma_poll_wait_posted[OF p1] by simp
  show ?thesis
  proof (cases "r1 < 0")
    case True
    with assms(1) c p1 have "w' = w4" by simp
    with q4 show ?thesis by simp
  next
    case False
    with assms(1) c p1 obtain r2 w5 where p2: "librpma_poll_wait td w4 = Inr (r2, w5)"
      by (auto split: sum.splits)
    with assms(1) c p1 False have "w' = w5"
      by (auto split: if_splits)
    with librpma_poll_wait_posted[OF p2] q4 show ?thesis by simp
  qed
qed

text \<open>The complete handshake of the depth-4 remote-write job.\<close>

theorem connect_first_message_witness:
  "\<exists>w'. fio_librpmaio_connect td0 handshake_world = Inr (0, w')
        \<and> posted w' = [IBV_POST_SEND (blk0\<lparr>blk_mode := htonl 1, blk_nr := htonl 4\<rparr>)]"
proof -
  have "\<exists>w'. fio_librpmaio_connect td0 handshake_world = Inr (0, w')"
    by (simp add: run_defs)
  then obtain w' where c: "fio_librpmaio_connect td0 handshake_world = Inr (0, w')" ..
  have "rdma_connect_ret handshake_world = 0"
    "cm_events handshake_world = (0, RDMA_CM_EVENT_ESTABLISHED, 0) # []"
    "post_send_ret handshake_world = 0"
    by (simp_all add: handshake_world_def world0_def)
  from connect_first_message[OF c this]
  have "posted w' = [IBV_POST_SEND (blk0\<lparr>blk_mode := htonl 1, blk_nr := htonl 4\<rparr>)]"
    by (simp add: handshake_world_def world0_def td0_def FIO_RDMA_MEM_WRITE_def)
  with c show ?thesis by blast
qed

text \<open>
  C6 as stated fails: in that handshake the count field of the message is \<open>htonl 4\<close>, not
  0, and its block-size field is 0 although the job's maximum block size is 4096. The
  run also shows the confirmation being decoded into \<^verbatim>\<open>rmt_us\<close>.
\<close>

theorem connect_count_field:
  "fio_librpmaio_connect td0 handshake_world =
     Inr (0, handshake_world\<lparr>
       cm_events := [], rounds := [], recv_buf := handshake_reply,
       send_buf := blk0\<lparr>blk_mode := htonl 1, blk_nr := htonl 4\<rparr>,
       posted := [IBV_POST_SEND (blk0\<lparr>blk_mode := htonl 1, blk_nr := htonl 4\<rparr>)],
       rmt_nr := 1,
       rmt_us := [\<lparr>rmt_buf = 4096, rmt_rkey = 7, rmt_size = 1048576\<rparr>,
                  \<lparr>rmt_buf = 0, rmt_rkey = 0, rmt_size = 0\<rparr>,
                  \<lparr>rmt_buf = 0, rmt_rkey = 0, rmt_size = 0\<rparr>,
                  \<lparr>rmt_buf = 0, rmt_rkey = 0, rmt_size = 0\<rparr>]\<rparr>)
   \<and> htonl 4 \<noteq> 0
   \<and> blk_max_bs (blk0\<lparr>blk_mode := htonl 1, blk_nr := htonl 4\<rparr>) = 0
   \<and> max (max_bs_read td0) (max_bs_write td0) = 4096"
  by (simp add: run_defs)




text \<open>
  C8, as amended. On the client path a receive completion whose byte length differs from
  the size of the control structure makes \<^verbatim>\<open>client_recv\<close> return 1 before anything is read
  from the buffer: the state is untouched, and in client mode the completion handler
  returns \<open>-1\<close> at that completion, whatever it has counted so far and whatever is left
  in the queue.
\<close>

theorem client_recv_size_check:
  assumes "ucast (wc_byte_len wc) \<noteq> sizeof_info_blk"
  shows "client_recv td wc w = Inr (1, w)
       \<and> (is_client w = 1 \<and> wc_status wc = 0 \<and> wc_opcode wc = IBV_WC_RECV \<longrightarrow>
            handle_wc td wc w = Inr (Ret (- 1) w)
            \<and> handler_loop td n (CQE wc # es) w = Inr (- 1, es, w))"
proof -
  have r: "client_recv td wc w = Inr (1, w)"
    using assms by (simp add: client_recv_def)
  then have "handle_wc td wc w = Inr (Ret (- 1) w)"
    if "is_client w = 1 \<and> wc_status wc = 0 \<and> wc_opcode wc = IBV_WC_RECV"
    using that by (simp add: handle_wc_def)
  then show ?thesis
    using r by simp
qed

text \<open>A three-byte message on the client path.\<close>

theorem client_recv_size_check_witness:
  "client_recv td0 \<lparr>wc_status = 0, wc_opcode = IBV_WC_RECV, wc_wr_id = 512, wc_byte_len = 3\<rparr>
      (world0\<lparr>recv_buf := blk0\<lparr>blk_mode := 33554432\<rparr>\<rparr>)
     = Inr (1, world0\<lparr>recv_buf := blk0\<lparr>blk_mode := 33554432\<rparr>\<rparr>)
   \<and> handle_wc td0 \<lparr>wc_status = 0, wc_opcode = IBV_WC_RECV, wc_wr_id = 512, wc_byte_len = 3\<rparr>
      (world0\<lparr>recv_buf := blk0\<lparr>blk_mode := 33554432\<rparr>\<rparr>)
     = Inr (Ret (- 1) (world0\<lparr>recv_buf := blk0\<lparr>blk_mode := 33554432\<rparr>\<rparr>))"
proof -
  let ?wc = "\<lparr>wc_status = 0, wc_opcode = IBV_WC_RECV, wc_wr_id = 512, wc_byte_len = 3\<rparr>"
  have "ucast (wc_byte_len ?wc) \<noteq> sizeof_info_blk"
    by (simp add: sizeof_info_blk_def)
  from client_recv_size_check[OF this, of td0 "world0\<lparr>recv_buf := blk0\<lparr>blk_mode := 33554432\<rparr>\<rparr>"]
  show ?thesis
    by (simp add: world0_def)
qed

text \<open>
  C8 as stated fails on the responder path: with \<^verbatim>\<open>is_client = 0\<close> the handler calls
  \<^verbatim>\<open>server_recv\<close>, which does not look at the byte length. A three-byte control message
  (work request id \<^verbatim>\<open>FIO_RDMA_MAX_IO_DEPTH\<close>) whose mode field holds 2 in network byte
  order is parsed, and the engine's transfer mode changes from remote write to remote read.
\<close>

theorem server_recv_no_size_check:
  "ucast (3 :: u32) \<noteq> sizeof_info_blk
   \<and> handle_wc td0 \<lparr>wc_status = 0, wc_opcode = IBV_WC_RECV, wc_wr_id = 512, wc_byte_len = 3\<rparr>
        (world0\<lparr>is_client := 0, recv_buf := blk0\<lparr>blk_mode := 33554432\<rparr>\<rparr>)
     = Inr (Next (world0\<lparr>is_client := 0, recv_buf := blk0\<lparr>blk_mode := 33554432\<rparr>,
                         librpma_protocol := FIO_RDMA_MEM_READ\<rparr>))
   \<and> librpma_protocol world0 \<noteq> FIO_RDMA_MEM_READ"
  by (simp add: handle_wc_def server_recv_def sizeof_info_blk_def FIO_RDMA_MAX_IO_DEPTH_def
      world0_def blk0_def td0_def ntohl_def Let_def FIO_RDMA_MEM_READ_def FIO_RDMA_MEM_WRITE_def
      FIO_RDMA_CHA_SEND_def)

text \<open>
  C9. On a non-empty completed collection \<^verbatim>\<open>fio_librpmaio_event\<close> returns its first
  element; what remains is the old collection without its head, every element one
  position nearer the front; the counter drops by one, and the queued and in-flight
  collections are unchanged.
\<close>

theorem event_fifo:
  assumes "0 < io_u_completed_nr w"
    and "io_u_completed_nr w \<le> int (length (io_us_completed w))"
  shows "\<exists>w'. fio_librpmaio_event w = Inr (hd (completed w), w')
           \<and> completed w' = tl (completed w)
           \<and> (\<forall>k < length (completed w'). completed w' ! k = completed w ! (k + 1))
           \<and> io_u_completed_nr w' = io_u_completed_nr w - 1
           \<and> queued w' = queued w \<and> in_flight w' = in_flight w"
proof -
  let ?c = "io_us_completed w"
  let ?n = "io_u_completed_nr w"
  obtain c' where c': "event_loop 0 w = Inr (w\<lparr>io_us_completed := c'\<rparr>)"
      "length c' = length ?c"
      "\<forall>j < length c'. c' ! j = (if int j < ?n - 1 then ?c ! (j + 1) else ?c ! j)"
    using event_loop_ok[of 0 w] assms(2) by auto
  let ?w' = "w\<lparr>io_us_completed := c', io_u_completed_nr := ?n - 1\<rparr>"
  have len: "0 < length ?c"
    using assms by linarith
  then have v: "valid_idx ?c 0"
    by (simp add: valid_idx_def)
  have "take (nat ?n) ?c \<noteq> []"
    using len assms by simp
  then have hd: "hd (completed w) = ?c ! 0"
    using assms by (simp add: completed_def hd_conv_nth)
  have r: "fio_librpmaio_event w = Inr (hd (completed w), ?w')"
    unfolding fio_librpmaio_event_def hd using v c'(1) by simp
  have t: "completed ?w' = tl (completed w)"
  proof (rule nth_equalityI)
    show "length (completed ?w') = length (tl (completed w))"
      using assms c'(2) by (simp add: completed_def)
  next
    fix k assume "k < length (completed ?w')"
    then have k: "int k < ?n - 1" "k < length c'"
      using assms c'(2) by (auto simp: completed_def)
    then show "completed ?w' ! k = tl (completed w) ! k"
      using c'(3)[rule_format, of k] assms c'(2)
      by (simp add: completed_def nth_tl)
  qed
  have s: "\<forall>k < length (completed ?w'). completed ?w' ! k = completed w ! (k + 1)"
    unfolding t by (simp add: nth_tl)
  have "queued ?w' = queued w" "in_flight ?w' = in_flight w"
    by (rule queued_cong; simp) (rule in_flight_cong; simp)
  with r t s show ?thesis
    by (intro exI[of _ ?w']) simp
qed


text \<open>Three completed requests 5, 6, 7: the call returns 5 and leaves 6, 7.\<close>

theorem event_fifo_witness:
  "0 < io_u_completed_nr (world0\<lparr>io_us_completed := [5, 6, 7, 0], io_u_completed_nr := 3\<rparr>)
   \<and> (\<exists>w'. fio_librpmaio_event
                (world0\<lparr>io_us_completed := [5, 6, 7, 0], io_u_completed_nr := 3\<rparr>) = Inr (5, w')
          \<and> completed w' = [6, 7] \<and> io_u_completed_nr w' = 2)"
proof -
  let ?w = "world0\<lparr>io_us_completed := [5, 6, 7, 0], io_u_completed_nr := 3\<rparr>"
  have h: "0 < io_u_completed_nr ?w" "io_u_completed_nr ?w \<le> int (length (io_us_completed ?w))"
    by simp_all
  have c: "completed ?w = [5, 6, 7]"
    by (simp add: completed_def)
  show ?thesis
    using event_fifo[OF h] h(1) unfolding c by auto
qed

text \<open>
  C10. \<^verbatim>\<open>fio_librpmaio_open_file\<close> takes no role argument: for a job for which \<^verbatim>\<open>td_read\<close>
  holds it is \<^verbatim>\<open>fio_librpmaio_accept\<close> (the responder), for every other job it is
  \<^verbatim>\<open>fio_librpmaio_connect\<close> (the initiator).
\<close>

theorem open_file_role:
  "(td_read td \<longrightarrow> fio_librpmaio_open_file td w = fio_librpmaio_accept td w)
   \<and> (\<not> td_read td \<longrightarrow> fio_librpmaio_open_file td w = fio_librpmaio_connect td w)"
  by (simp add: fio_librpmaio_open_file_def)


text \<open>The two roles differ: where \<^verbatim>\<open>rdma_accept\<close> would fail and no connection event is
  pending, a read job fails at once in \<^verbatim>\<open>fio_librpmaio_accept\<close>, while a write job calls
  \<^verbatim>\<open>rdma_connect\<close> and then waits for the connection event.\<close>

theorem open_file_role_witness:
  "td_read (td0\<lparr>td_read := True\<rparr>)
   \<and> fio_librpmaio_open_file (td0\<lparr>td_read := True\<rparr>) (world0\<lparr>rdma_accept_ret := 1\<rparr>)
       = Inr (1, world0\<lparr>rdma_accept_ret := 1\<rparr>)
   \<and> \<not> td_read td0
   \<and> fio_librpmaio_open_file td0 (world0\<lparr>rdma_accept_ret := 1\<rparr>) = Inl Blocked"
proof -
  have a: "fio_librpmaio_accept (td0\<lparr>td_read := True\<rparr>) (world0\<lparr>rdma_accept_ret := 1\<rparr>)
           = Inr (1, world0\<lparr>rdma_accept_ret := 1\<rparr>)"
    by (simp add: fio_librpmaio_accept_def)
  have c: "fio_librpmaio_connect td0 (world0\<lparr>rdma_accept_ret := 1\<rparr>) = Inl Blocked"
    by (simp add: fio_librpmaio_connect_def get_next_channel_event_def world0_def)
  have t: "td_read (td0\<lparr>td_read := True\<rparr>)" "\<not> td_read td0"
    by (simp_all add: td0_def)
  show ?thesis
    using open_file_role[of "td0\<lparr>td_read := True\<rparr>" "world0\<lparr>rdma_accept_ret := 1\<rparr>"]
      open_file_role[of td0 "world0\<lparr>rdma_accept_ret := 1\<rparr>"] a c t
    by simp
qed

section \<open>Further properties of the request life cycle\<close>

text \<open>
  X1. In client mode and with \<^verbatim>\<open>fio_fill_issue_time\<close> true, \<^verbatim>\<open>fio_librpmaio_commit\<close> on a
  non-empty queued collection returns 0 and moves every queued request, in submission
  order, to the end of the in-flight collection; the queued collection is empty
  afterwards, and the completed collection and the request objects are untouched. The
  arrays are assumed to have room for the counters.
\<close>

theorem commit_moves_queued_to_flight:
  assumes "is_client w \<noteq> 0" and "fill_issue_time td" and "io_us_queued w = Some q"
    and "0 < io_u_queued_nr w" and "io_u_queued_nr w \<le> int (length q)"
    and "0 \<le> io_u_flight_nr w"
    and "io_u_flight_nr w + io_u_queued_nr w \<le> int (length (io_us_flight w))"
  shows "\<exists>w'. fio_librpmaio_commit td w = Inr (0, w')
           \<and> queued w' = [] \<and> in_flight w' = in_flight w @ queued w
           \<and> completed w' = completed w \<and> io_u_mem w' = io_u_mem w"
proof -
  obtain n where n: "io_u_queued_nr w = int (Suc n)"
    using assms(4) by (metis Suc_pred' nat_0_iff nat_int not_gr_zero of_nat_0 zless_nat_conj int_nat_eq linorder_not_less order_less_imp_le)
  have "\<exists>w'. commit_loop td (length q) 0 w = Inr (0, w')
           \<and> io_u_queued_nr w' = 0 \<and> io_us_queued w' = Some q
           \<and> in_flight w' = in_flight w @ take (Suc n) (drop 0 q)
           \<and> io_us_completed w' = io_us_completed w
           \<and> io_u_completed_nr w' = io_u_completed_nr w
           \<and> io_u_mem w' = io_u_mem w"
    using assms n by (intro commit_loop_moves) simp_all
  then obtain w' where w': "commit_loop td (length q) 0 w = Inr (0, w')"
    "io_u_queued_nr w' = 0" "io_us_queued w' = Some q"
    "in_flight w' = in_flight w @ take (Suc n) q"
    "io_us_completed w' = io_us_completed w" "io_u_completed_nr w' = io_u_completed_nr w"
    "io_u_mem w' = io_u_mem w"
    by auto
  have "fio_librpmaio_commit td w = Inr (0, w')"
    using assms(3) w'(1) by (simp add: fio_librpmaio_commit_def)
  moreover have "queued w' = []"
    using w'(2,3) by (simp add: queued_def)
  moreover have "queued w = take (Suc n) q"
    using assms(3) n by (simp add: queued_def del: of_nat_Suc)
  moreover have "completed w' = completed w"
    using w'(5,6) by (rule completed_cong)
  ultimately show ?thesis
    using w'(4,7) by auto
qed

text \<open>Two queued requests.\<close>

theorem commit_moves_queued_to_flight_witness:
  "\<exists>w'. fio_librpmaio_commit td0 (world0\<lparr>io_us_queued := Some [7, 8, 0, 0], io_u_queued_nr := 2\<rparr>)
          = Inr (0, w')
        \<and> queued w' = [] \<and> in_flight w' = [7, 8] \<and> completed w' = []"
proof -
  let ?w = "world0\<lparr>io_us_queued := Some [7, 8, 0, 0], io_u_queued_nr := 2\<rparr>"
  have h: "is_client ?w \<noteq> 0" "fill_issue_time td0" "io_us_queued ?w = Some [7, 8, 0, 0]"
    "0 < io_u_queued_nr ?w" "io_u_queued_nr ?w \<le> int (length [7, 8, 0, 0 :: nat])"
    "0 \<le> io_u_flight_nr ?w"
    "io_u_flight_nr ?w + io_u_queued_nr ?w \<le> int (length (io_us_flight ?w))"
    by (simp_all add: world0_def td0_def)
  have c: "queued ?w = [7, 8]" "in_flight ?w = []" "completed ?w = []"
    by (simp_all add: queued_def in_flight_def completed_def world0_def)
  show ?thesis
    using commit_moves_queued_to_flight[OF h] unfolding c by auto
qed

text \<open>
  X2. A successful completion that matches the in-flight request \<open>p\<close> (the first with the
  completion's work request id) moves \<open>p\<close> to the end of the completed collection and
  removes it from the in-flight collection by putting the last in-flight request in its
  place; the queued collection is untouched. If the in-flight requests were pairwise
  distinct they still are, and they are the old ones without \<open>p\<close>.
\<close>

theorem matched_request_moves_forward:
  assumes "handle_wc td wc w = Inr (Next w')"
    and "wc_wr_id wc \<noteq> FIO_RDMA_MAX_IO_DEPTH"
    and "in_flight w = xs @ p # ys"
    and "sel = (if wc_opcode wc = IBV_WC_RECV then rq_wr_id else sq_wr_id)"
    and "\<forall>x \<in> set xs. sel (io_u_mem w x) \<noteq> wc_wr_id wc"
    and "sel (io_u_mem w p) = wc_wr_id wc"
  shows "in_flight w' = (xs @ butlast (p # ys))[length xs := last (p # ys)]
       \<and> completed w' = completed w @ [p]
       \<and> queued w' = queued w
       \<and> (distinct (in_flight w) \<longrightarrow>
            distinct (in_flight w') \<and> set (in_flight w') = set (in_flight w) - {p})"
proof -
  let ?b = "wc_opcode wc = IBV_WC_RECV"
  have "\<exists>w1. match_flight ?b wc w1 = Inr w' \<and> in_flight w1 = in_flight w
          \<and> completed w1 = completed w \<and> queued w1 = queued w \<and> io_u_mem w1 = io_u_mem w"
  proof (cases ?b)
    case True
    with assms(1,2) obtain r w1 where
      r: "(if is_client w = 1 then client_recv td wc w else server_recv td wc w) = Inr (r, w1)"
      and m: "match_flight True wc w1 = Inr w'"
      by (auto simp: handle_wc_def split: if_splits sum.splits)
    from recv_frame[OF r] m True show ?thesis by auto
  next
    case False
    with assms(1,2) have "match_flight False wc w = Inr w'"
      by (auto simp: handle_wc_def split: if_splits sum.splits ibv_wc_opcode.splits)
    with False show ?thesis by auto
  qed
  then obtain w1 where m: "match_flight ?b wc w1 = Inr w'"
    and fr: "in_flight w1 = in_flight w" "completed w1 = completed w" "queued w1 = queued w"
      "io_u_mem w1 = io_u_mem w"
    by blast
  have m1: "in_flight w1 = xs @ p # ys"
    "\<forall>x \<in> set xs. (if ?b then rq_wr_id else sq_wr_id) (io_u_mem w1 x) \<noteq> wc_wr_id wc"
    "(if ?b then rq_wr_id else sq_wr_id) (io_u_mem w1 p) = wc_wr_id wc"
    using fr assms(3,4,5,6) by simp_all
  have a: "in_flight w' = (xs @ butlast (p # ys))[length xs := last (p # ys)]"
    by (rule match_flight_removes(1)[OF m m1])
  have b: "completed w' = completed w @ [p]"
    using match_flight_first(1)[OF m m1] fr by simp
  have c: "queued w' = queued w"
    using match_flight_removes(2)[OF m m1] fr by simp
  have d: "distinct (in_flight w') \<and> set (in_flight w') = set (in_flight w) - {p}"
    if "distinct (in_flight w)"
    using that swap_remove_distinct[of xs p ys] unfolding a assms(3) by simp
  show ?thesis using a b c d by blast
qed

text \<open>Requests 7 and 8 in flight; the send of 7 completes.\<close>

theorem matched_request_moves_forward_witness:
  "\<exists>w'. handle_wc td0 \<lparr>wc_status = 0, wc_opcode = IBV_WC_SEND, wc_wr_id = 7, wc_byte_len = 0\<rparr>
          flight_world = Inr (Next w')
        \<and> in_flight w' = [8] \<and> completed w' = [7] \<and> queued w' = []"
proof -
  let ?wc = "\<lparr>wc_status = 0, wc_opcode = IBV_WC_SEND, wc_wr_id = 7, wc_byte_len = 0\<rparr>"
  have "\<exists>w'. handle_wc td0 ?wc flight_world = Inr (Next w')"
    by (simp add: handle_wc_def match_flight_def find_flight.simps
        to_completed_def drop_flight_def valid_idx_def flight_world_def world0_def io_u0_def
        FIO_RDMA_MAX_IO_DEPTH_def Let_def)
  then obtain w' where h: "handle_wc td0 ?wc flight_world = Inr (Next w')" ..
  have f: "in_flight flight_world = [] @ 7 # [8]"
    by (simp add: in_flight_def flight_world_def world0_def)
  have n: "wc_wr_id ?wc \<noteq> FIO_RDMA_MAX_IO_DEPTH"
    by (simp add: FIO_RDMA_MAX_IO_DEPTH_def)
  have s: "sq_wr_id = (if wc_opcode ?wc = IBV_WC_RECV then rq_wr_id else sq_wr_id)"
    "\<forall>x \<in> set []. sq_wr_id (io_u_mem flight_world x) \<noteq> wc_wr_id ?wc"
    "sq_wr_id (io_u_mem flight_world 7) = wc_wr_id ?wc"
    by (simp_all add: flight_world_def world0_def io_u0_def)
  have c: "completed flight_world = []" "queued flight_world = []"
    by (simp_all add: completed_def queued_def flight_world_def world0_def)
  from matched_request_moves_forward[OF h n f s] c
  have "in_flight w' = [8] \<and> completed w' = [7] \<and> queued w' = []"
    by simp
  with h show ?thesis by blast
qed

text \<open>
  X3. A successful send, RDMA-write or RDMA-read completion whose work request id matches
  no in-flight request changes nothing, and the handler loop goes on with the next
  entry of the completion queue, counting the completion.
\<close>

theorem unmatched_completion_ignored:
  assumes "wc_status wc = 0"
    and "wc_opcode wc = IBV_WC_SEND \<or> wc_opcode wc = IBV_WC_RDMA_WRITE
         \<or> wc_opcode wc = IBV_WC_RDMA_READ"
    and "wc_wr_id wc \<noteq> FIO_RDMA_MAX_IO_DEPTH"
    and "0 \<le> io_u_flight_nr w" and "io_u_flight_nr w \<le> int (length (io_us_flight w))"
    and "\<forall>x \<in> set (in_flight w). sq_wr_id (io_u_mem w x) \<noteq> wc_wr_id wc"
  shows "handle_wc td wc w = Inr (Next w)
       \<and> handler_loop td n (CQE wc # es) w =
           handler_loop td (n + 1) es (w\<lparr>cq_event_num := cq_event_num w + 1\<rparr>)"
proof -
  have "\<forall>j. nat 0 \<le> j \<and> int j < io_u_flight_nr w \<longrightarrow>
           sq_wr_id (io_u_mem w (io_us_flight w ! j)) \<noteq> wc_wr_id wc"
  proof (intro allI impI)
    fix j assume a: "nat 0 \<le> j \<and> int j < io_u_flight_nr w"
    then have "j < length (in_flight w)"
      using assms(5) by (simp add: in_flight_def)
    moreover have "in_flight w ! j = io_us_flight w ! j"
      using a by (simp add: in_flight_def)
    ultimately have "io_us_flight w ! j \<in> set (in_flight w)"
      by (metis nth_mem)
    with assms(6) show "sq_wr_id (io_u_mem w (io_us_flight w ! j)) \<noteq> wc_wr_id wc" by blast
  qed
  then have "find_flight sq_wr_id (wc_wr_id wc) 0 w = Inr (io_u_flight_nr w)"
    using assms(4,5) by (intro find_flight_none) simp_all
  then have "match_flight False wc w = Inr w"
    by (simp add: match_flight_def drop_flight_def)
  then have h: "handle_wc td wc w = Inr (Next w)"
    using assms(1,2,3) by (auto simp: handle_wc_def)
  then show ?thesis by simp
qed

text \<open>A completion with id 9 while 7 and 8 are in flight.\<close>

theorem unmatched_completion_ignored_witness:
  "handle_wc td0 \<lparr>wc_status = 0, wc_opcode = IBV_WC_SEND, wc_wr_id = 9, wc_byte_len = 0\<rparr>
     flight_world = Inr (Next flight_world)"
proof -
  let ?wc = "\<lparr>wc_status = 0, wc_opcode = IBV_WC_SEND, wc_wr_id = 9, wc_byte_len = 0\<rparr>"
  have f: "in_flight flight_world = [7, 8]"
    by (simp add: in_flight_def flight_world_def world0_def)
  have h: "wc_status ?wc = 0"
    "wc_opcode ?wc = IBV_WC_SEND \<or> wc_opcode ?wc = IBV_WC_RDMA_WRITE
         \<or> wc_opcode ?wc = IBV_WC_RDMA_READ"
    "wc_wr_id ?wc \<noteq> FIO_RDMA_MAX_IO_DEPTH"
    "0 \<le> io_u_flight_nr flight_world"
    "io_u_flight_nr flight_world \<le> int (length (io_us_flight flight_world))"
    "\<forall>x \<in> set (in_flight flight_world). sq_wr_id (io_u_mem flight_world x) \<noteq> wc_wr_id ?wc"
    unfolding f by (simp_all add: FIO_RDMA_MAX_IO_DEPTH_def flight_world_def world0_def io_u0_def)
  from unmatched_completion_ignored[OF h] show ?thesis by simp
qed

end
